theory Spec2Isabelle
  imports Main
begin

section \<open>Python strings and integers\<close>

text \<open>
  The scripts format candidate ids with f-strings (\<^verbatim>\<open>f"{n}.json"\<close>), trim
  configuration strings with \<^verbatim>\<open>str.strip\<close> and \<^verbatim>\<open>str.rstrip('/')\<close>, and the tabular
  variant parses an edition number with \<^verbatim>\<open>int(...)\<close>.  Python's \<^verbatim>\<open>int\<close> is unbounded
  and is modelled by \<^typ>\<open>int\<close>.  A Python \<^verbatim>\<open>str\<close> is a sequence of code points; a
  \<^typ>\<open>char\<close> stands for one code point below 256 (so a \<^typ>\<open>string\<close> is a text of the
  Latin-1 range, ASCII included), and texts with higher code points are outside the
  model.
\<close>

definition digit_chars :: string where
  "digit_chars = ''0123456789''"

definition is_digit :: "char \<Rightarrow> bool" where
  "is_digit c \<longleftrightarrow> c \<in> set digit_chars"

definition digit_char :: "nat \<Rightarrow> char" where
  "digit_char d = digit_chars ! d"

fun index_of :: "'a \<Rightarrow> 'a list \<Rightarrow> nat" where
  "index_of x [] = 0"
| "index_of x (y # ys) = (if x = y then 0 else Suc (index_of x ys))"

definition digit_val :: "char \<Rightarrow> nat" where
  "digit_val c = index_of c digit_chars"

text \<open>Decimal rendering of a natural number, most significant digit first.\<close>

fun digits_nat :: "nat \<Rightarrow> string" where
  "digits_nat n =
     (if n < 10 then [digit_char n]
      else digits_nat (n div 10) @ [digit_char (n mod 10)])"

declare digits_nat.simps [simp del]

text \<open>\<^verbatim>\<open>str(n)\<close> and \<^verbatim>\<open>f"{n}"\<close> for a Python int.\<close>

definition str_int :: "int \<Rightarrow> string" where
  "str_int i =
     (if i < 0 then CHR ''-'' # digits_nat (nat (- i)) else digits_nat (nat i))"

text \<open>
  White space as \<^verbatim>\<open>str.strip()\<close>, \<^verbatim>\<open>str.isspace()\<close> and \<^verbatim>\<open>int()\<close> see it below code
  point 256: tab, line feed, vertical tab, form feed, carriage return, the four
  separators 28 to 31, space, next line (133) and no-break space (160).
\<close>

definition is_space :: "char \<Rightarrow> bool" where
  "is_space c \<longleftrightarrow>
     c \<in> {CHR 0x09, CHR 0x0A, CHR 0x0B, CHR 0x0C, CHR 0x0D,
          CHR 0x1C, CHR 0x1D, CHR 0x1E, CHR 0x1F, CHR '' '', CHR 0x85, CHR 0xA0}"

definition rstrip_with :: "(char \<Rightarrow> bool) \<Rightarrow> string \<Rightarrow> string" where
  "rstrip_with P s = rev (dropWhile P (rev s))"

text \<open>\<^verbatim>\<open>s.strip()\<close>\<close>

definition py_strip :: "string \<Rightarrow> string" where
  "py_strip s = rstrip_with is_space (dropWhile is_space s)"

text \<open>\<^verbatim>\<open>s.rstrip('/')\<close>\<close>

definition rstrip_slash :: "string \<Rightarrow> string" where
  "rstrip_slash s = rstrip_with (\<lambda>c. c = CHR ''/'') s"

text \<open>\<^verbatim>\<open>s.endswith(t)\<close>\<close>

definition endswith :: "string \<Rightarrow> string \<Rightarrow> bool" where
  "endswith s t \<longleftrightarrow> length t \<le> length s \<and> drop (length s - length t) s = t"

text \<open>
  \<^verbatim>\<open>int(s)\<close> on a string: surrounding white space is ignored, one sign is allowed, and
  the digits may be grouped by single underscores.  Below code point 256 the decimal
  digits are \<^verbatim>\<open>0\<close> to \<^verbatim>\<open>9\<close> only.  \<^const>\<open>None\<close> stands for \<^verbatim>\<open>ValueError\<close>.
  \<open>read_int\<close> is the conversion itself; \<open>py_int\<close> adds the interpreter's limit on the
  length of a decimal string (\<^verbatim>\<open>sys.get_int_max_str_digits()\<close>, 4300 unless configured
  otherwise): a string with more digits is refused with \<^verbatim>\<open>ValueError\<close>; underscores,
  the sign and white space do not count.
\<close>

fun digits_ok :: "string \<Rightarrow> bool" where
  "digits_ok [] = False"
| "digits_ok [c] = is_digit c"
| "digits_ok (c # d # cs) =
     (is_digit c \<and> (if d = CHR ''_'' then digits_ok cs else digits_ok (d # cs)))"

definition nat_of_digits :: "string \<Rightarrow> nat" where
  "nat_of_digits ds = foldl (\<lambda>a c. 10 * a + digit_val c) 0 ds"

definition parse_digits :: "string \<Rightarrow> nat option" where
  "parse_digits ds =
     (if digits_ok ds then Some (nat_of_digits (filter (\<lambda>c. c \<noteq> CHR ''_'') ds)) else None)"

definition read_int :: "string \<Rightarrow> int option" where
  "read_int s =
     (case py_strip s of
        [] \<Rightarrow> None
      | c # cs \<Rightarrow>
          if c = CHR ''-'' then map_option (\<lambda>n. - int n) (parse_digits cs)
          else if c = CHR ''+'' then map_option int (parse_digits cs)
          else map_option int (parse_digits (c # cs)))"

definition int_max_str_digits :: nat where
  "int_max_str_digits = 4300"

definition py_int :: "string \<Rightarrow> int option" where
  "py_int s =
     (if int_max_str_digits < length (filter is_digit s) then None else read_int s)"

section \<open>Candidate items and destination keys\<close>

text \<open>
  Every IPFS variant names the candidate \<open>n\<close> by \<^verbatim>\<open>filename = f"{n}.json"\<close> (or
  \<^verbatim>\<open>.png\<close>) and uploads it under \<^verbatim>\<open>dest_key = f"{dest_prefix}{filename}"\<close>.
\<close>

definition filename :: "int \<Rightarrow> string \<Rightarrow> string" where
  "filename n ext = str_int n @ ''.'' @ ext"

definition dest_key :: "string \<Rightarrow> string \<Rightarrow> string" where
  "dest_key dest_prefix fname = dest_prefix @ fname"

text \<open>
  The specification's reading of a key back into an id: remove the prefix and the
  \<open>.ext\<close> suffix and read what is left as an integer.  This function is not part of the
  scripts; it is the inverse the specification speaks of.
\<close>

definition spec_parse_key :: "string \<Rightarrow> string \<Rightarrow> string \<Rightarrow> int option" where
  "spec_parse_key p e k =
     (let suffix = ''.'' @ e in
      if take (length p) k = p \<and> length p + length suffix \<le> length k \<and> endswith k suffix
      then read_int (take (length k - length p - length suffix) (drop (length p) k))
      else None)"

section \<open>HTTP exchanges, the local temp directory and the console\<close>

text \<open>
  The scripts talk to three outside parties through one \<^verbatim>\<open>requests.Session\<close>: the IPFS
  gateways, the storage API and the public CDN host.  What these parties answer is not
  in the scripts, so it is a parameter of the model: a \<open>world\<close> gives, for the \<open>t\<close>-th call
  of \<^verbatim>\<open>session.get/put/head\<close> in a run and the request that is sent, the answer that
  stands when the transport adapter has done its own retries: the last response of the
  other side, or the exception of the last attempt.  Only exceptions below
  \<^verbatim>\<open>Exception\<close> are modelled; a user interrupt is not.
\<close>

datatype exn =
    Timeout string
  | ConnectionError string
  | RetryError string
  | RequestException string
  | RuntimeError string
  | TypeError string
  | ValueError string
  | OverflowError string
  | OtherException string

text \<open>\<^verbatim>\<open>str(e)\<close>\<close>

fun str_exn :: "exn \<Rightarrow> string" where
  "str_exn (Timeout m) = m"
| "str_exn (ConnectionError m) = m"
| "str_exn (RetryError m) = m"
| "str_exn (RequestException m) = m"
| "str_exn (RuntimeError m) = m"
| "str_exn (TypeError m) = m"
| "str_exn (ValueError m) = m"
| "str_exn (OverflowError m) = m"
| "str_exn (OtherException m) = m"

datatype http_method = GET | PUT | HEAD

record request =
  meth :: http_method
  url :: string
  headers :: "(string \<times> string) list"
  timeout :: int

text \<open>
  A response carries its status code and body text.  A streamed body (\<^verbatim>\<open>stream=True\<close>,
  read with \<^verbatim>\<open>iter_content\<close>) may break while it is read: \<open>stream_error\<close> is the
  exception raised then.  The payload bytes themselves play no part in any decision
  of the scripts and are left out.
\<close>

datatype http_result =
    Response (status_code: int) (resp_text: string) (stream_error: "exn option")
  | Raised exn

type_synonym world = "nat \<Rightarrow> request \<Rightarrow> http_result"

text \<open>
  The trace of a run: every HTTP exchange with its outcome, every \<^verbatim>\<open>time.sleep\<close> (whole
  seconds for the back-off, \<open>BatchPause\<close> for the fixed tenth of a second between
  existence-check batches) and the lines that \<^verbatim>\<open>main\<close> writes in and after its loop
  (\<^verbatim>\<open>print\<close> or the logger, without the logger's time stamp).  Start-up banners and
  the diagnostics inside the helper functions are not recorded.
\<close>

datatype event = Http request http_result | Sleep int | BatchPause | Print string

record io =
  clock :: nat
  trace :: "event list"
  files :: "string set"
  tempdir_removed :: bool

text \<open>
  \<^verbatim>\<open>make_session\<close> mounts an adapter with
  \<^verbatim>\<open>Retry(total=..., status_forcelist=[429, 500, 502, 503, 504], allowed_methods=[...])\<close>
  and leaves \<^verbatim>\<open>raise_on_status\<close> at its default.  The four scripts give the same list of
  statuses, and every method that a script uses is among the methods its session allows
  (GET and PUT in \<^verbatim>\<open>ipfs-to-cdn-apes-json.py\<close> and \<^verbatim>\<open>csv-to-json-to-cdn-hog.py\<close>; GET,
  PUT and HEAD in the two hog scripts).  So a response with one of these statuses is
  never handed to the script: the adapter repeats the request, and when the status is
  still there after the last retry the call raises \<^verbatim>\<open>requests.exceptions.RetryError\<close>.
  An answer that was repeated with success is a world whose answer is the later one.  The
  model has no response headers; a response that the adapter retries because of a
  \<^verbatim>\<open>Retry-After\<close> header is a world that raises \<^verbatim>\<open>RetryError\<close>.  The pauses of the
  adapter between its retries are not recorded.
\<close>

definition status_forcelist :: "int list" where
  "status_forcelist = [429, 500, 502, 503, 504]"

definition retry_error :: exn where
  "retry_error = RetryError ''too many error responses''"

text \<open>What the session hands back for the answer of the world.\<close>

definition adapter :: "http_result \<Rightarrow> http_result" where
  "adapter answer =
     (case answer of
        Response code body err \<Rightarrow>
          if code \<in> set status_forcelist then Raised retry_error else answer
      | Raised e \<Rightarrow> Raised e)"

text \<open>
  One call of the session.  The trace records the request with the answer of the world;
  the caller receives what the adapter makes of it.
\<close>

definition session_request :: "world \<Rightarrow> request \<Rightarrow> io \<Rightarrow> http_result \<times> io" where
  "session_request w r s =
     (adapter (w (clock s) r),
      s\<lparr>clock := Suc (clock s), trace := trace s @ [Http r (w (clock s) r)]\<rparr>)"

definition emit :: "string \<Rightarrow> io \<Rightarrow> io" where
  "emit line s = s\<lparr>trace := trace s @ [Print line]\<rparr>"

text \<open>
  \<^verbatim>\<open>time.sleep(secs)\<close> with a Python int: a negative length raises \<^verbatim>\<open>ValueError\<close>, and a
  length that does not fit the interpreter's 64-bit count of nanoseconds raises
  \<^verbatim>\<open>OverflowError\<close>.
\<close>

definition sleep_max :: int where
  "sleep_max = 9223372036"

definition sleep :: "int \<Rightarrow> io \<Rightarrow> exn + io" where
  "sleep secs s =
     (if secs < 0 then Inl (ValueError ''sleep length must be non-negative'')
      else if sleep_max < secs then Inl (OverflowError ''timestamp too large to convert to C PyTime_t'')
      else Inr (s\<lparr>trace := trace s @ [Sleep secs]\<rparr>))"

definition batch_pause :: "io \<Rightarrow> io" where
  "batch_pause s = s\<lparr>trace := trace s @ [BatchPause]\<rparr>"

definition write_file :: "string \<Rightarrow> io \<Rightarrow> io" where
  "write_file path s = s\<lparr>files := insert path (files s)\<rparr>"

text \<open>\<^verbatim>\<open>local_path.unlink(missing_ok=True)\<close> inside \<^verbatim>\<open>try ... except Exception: pass\<close>\<close>

definition unlink :: "string \<Rightarrow> io \<Rightarrow> io" where
  "unlink path s = s\<lparr>files := files s - {path}\<rparr>"

text \<open>\<^verbatim>\<open>shutil.rmtree(tempdir, ignore_errors=True)\<close>; every local file lives in the temp directory.\<close>

definition rmtree :: "io \<Rightarrow> io" where
  "rmtree s = s\<lparr>files := {}, tempdir_removed := True\<rparr>"

definition io0 :: io where
  "io0 = \<lparr>clock = 0, trace = [], files = {}, tempdir_removed = False\<rparr>"

section \<open>URLs\<close>

text \<open>
  \<^verbatim>\<open>urllib.parse.quote\<close> with its default \<^verbatim>\<open>safe='/'\<close>: letters, digits and \<^verbatim>\<open>_.-~/\<close>
  are kept, and every other character becomes \<^verbatim>\<open>%XX\<close> for each byte of its UTF-8
  encoding: one byte below code point 128, two bytes from there to 255.
\<close>

definition hex_chars :: string where
  "hex_chars = ''0123456789ABCDEF''"

definition quote_safe :: "char \<Rightarrow> bool" where
  "quote_safe c \<longleftrightarrow>
     c \<in> set ''ABCDEFGHIJKLMNOPQRSTUVWXYZabcdefghijklmnopqrstuvwxyz0123456789_.-~/''"

definition percent_byte :: "nat \<Rightarrow> string" where
  "percent_byte b = [CHR ''%'', hex_chars ! (b div 16), hex_chars ! (b mod 16)]"

definition utf8_bytes :: "char \<Rightarrow> nat list" where
  "utf8_bytes c =
     (let cp = (of_char c :: nat)
      in if cp < 128 then [cp] else [192 + cp div 64, 128 + cp mod 64])"

definition quote_char :: "char \<Rightarrow> string" where
  "quote_char c =
     (if quote_safe c then [c] else concat (map percent_byte (utf8_bytes c)))"

definition quote :: "string \<Rightarrow> string" where
  "quote s = concat (map quote_char s)"

text \<open>\<^verbatim>\<open>base = region_host.strip() if region_host else "storage.bunnycdn.com"\<close>\<close>

definition storage_base :: "string option \<Rightarrow> string" where
  "storage_base region_host =
     (case region_host of
        None \<Rightarrow> ''storage.bunnycdn.com''
      | Some h \<Rightarrow> if h = [] then ''storage.bunnycdn.com'' else py_strip h)"

text \<open>\<^verbatim>\<open>f"https://{base}/{quote(storage_zone.strip())}/{dest_key}"\<close>\<close>

definition storage_url :: "string \<Rightarrow> string option \<Rightarrow> string \<Rightarrow> string" where
  "storage_url storage_zone region_host dkey =
     ''https://'' @ storage_base region_host @ ''/'' @ quote (py_strip storage_zone) @ ''/'' @ dkey"

text \<open>\<^verbatim>\<open>f"{gateway.rstrip('/')}/ipfs/{cid}/{filename}"\<close>\<close>

definition ipfs_url :: "string \<Rightarrow> string \<Rightarrow> string \<Rightarrow> string" where
  "ipfs_url gateway cid fname = rstrip_slash gateway @ ''/ipfs/'' @ cid @ ''/'' @ fname"

section \<open>The helper functions of the IPFS variants\<close>

text \<open>
  \<^verbatim>\<open>download_json\<close> (the same text in \<^verbatim>\<open>ipfs-to-cdn-apes-json.py\<close> and
  \<^verbatim>\<open>ipfs-to-cdn-hogs-json.py\<close>).  There is no \<^verbatim>\<open>try\<close>: an exception of the GET or of
  reading the body leaves the function.
\<close>

definition get_request :: "string \<Rightarrow> int \<Rightarrow> request" where
  "get_request u tmo = \<lparr>meth = GET, url = u, headers = [], timeout = tmo\<rparr>"

definition download_json ::
  "world \<Rightarrow> string \<Rightarrow> string \<Rightarrow> int \<Rightarrow> string \<Rightarrow> int \<Rightarrow> io \<Rightarrow> (exn + bool \<times> int) \<times> io" where
  "download_json w gateway cid n out_file tmo s =
     (case session_request w (get_request (ipfs_url gateway cid (filename n ''json'')) tmo) s of
        (Raised e, s1) \<Rightarrow> (Inl e, s1)
      | (Response code body err, s1) \<Rightarrow>
          if code \<noteq> 200 then (Inr (False, code), s1)
          else (case err of
                  Some e \<Rightarrow> (Inl e, write_file out_file s1)
                | None \<Rightarrow> (Inr (True, 200), write_file out_file s1)))"

text \<open>
  \<^verbatim>\<open>download_png\<close> of \<^verbatim>\<open>ipfs-to-cdn-hogs.py\<close>: the inner loop over the gateways, where
  every exception is caught and logged, and the outer loop over the attempts.
  \<open>None\<close> from the inner loop means that no gateway returned.  The back-off
  \<^verbatim>\<open>time.sleep(wait_time)\<close> stands outside the \<^verbatim>\<open>try\<close>, so its exception leaves the
  function.
\<close>

fun try_gateways ::
  "world \<Rightarrow> string list \<Rightarrow> string \<Rightarrow> string \<Rightarrow> string \<Rightarrow> int \<Rightarrow> io \<Rightarrow> (bool \<times> int) option \<times> io" where
  "try_gateways w [] cid fname out_file tmo s = (None, s)"
| "try_gateways w (g # gs) cid fname out_file tmo s =
     (case session_request w (get_request (ipfs_url g cid fname) tmo) s of
        (Raised e, s1) \<Rightarrow> try_gateways w gs cid fname out_file tmo s1
      | (Response code body err, s1) \<Rightarrow>
          if code = 200 then
            (case err of
               Some e \<Rightarrow> try_gateways w gs cid fname out_file tmo (write_file out_file s1)
             | None \<Rightarrow> (Some (True, 200), write_file out_file s1))
          else if code = 404 then (Some (False, 404), s1)
          else try_gateways w gs cid fname out_file tmo s1)"

fun download_attempts ::
  "world \<Rightarrow> string list \<Rightarrow> string \<Rightarrow> string \<Rightarrow> string \<Rightarrow> int \<Rightarrow> int \<Rightarrow> int \<Rightarrow> nat list \<Rightarrow> io
     \<Rightarrow> (exn + bool \<times> int) \<times> io" where
  "download_attempts w gws cid fname out_file tmo max_retries retry_delay [] s =
     (Inr (False, 504), s)"
| "download_attempts w gws cid fname out_file tmo max_retries retry_delay (attempt # rest) s =
     (case try_gateways w gws cid fname out_file tmo s of
        (Some r, s1) \<Rightarrow> (Inr r, s1)
      | (None, s1) \<Rightarrow>
          if int attempt < max_retries - 1 then
            (case sleep (retry_delay * 2 ^ attempt) s1 of
               Inl e \<Rightarrow> (Inl e, s1)
             | Inr s2 \<Rightarrow>
                 download_attempts w gws cid fname out_file tmo max_retries retry_delay rest s2)
          else download_attempts w gws cid fname out_file tmo max_retries retry_delay rest s1)"

definition download_png ::
  "world \<Rightarrow> string list \<Rightarrow> string \<Rightarrow> int \<Rightarrow> string \<Rightarrow> int \<Rightarrow> int \<Rightarrow> int \<Rightarrow> io
     \<Rightarrow> (exn + bool \<times> int) \<times> io" where
  "download_png w gws cid n out_file tmo max_retries retry_delay s =
     download_attempts w gws cid (filename n ''png'') out_file tmo max_retries retry_delay
       [0 ..< nat max_retries] s"

text \<open>
  \<^verbatim>\<open>bunny_put\<close> (the same text in the three IPFS scripts).  Opening the local file fails
  when it is not there; an exception of the PUT leaves the function.
\<close>

definition put_request :: "string \<Rightarrow> string \<Rightarrow> string option \<Rightarrow> string \<Rightarrow> request" where
  "put_request storage_zone access_key region_host dkey =
     \<lparr>meth = PUT, url = storage_url storage_zone region_host dkey,
      headers = [(''AccessKey'', py_strip access_key),
                 (''Content-Type'', ''application/octet-stream'')],
      timeout = 180\<rparr>"

definition bunny_put ::
  "world \<Rightarrow> string \<Rightarrow> string \<Rightarrow> string option \<Rightarrow> string \<Rightarrow> string \<Rightarrow> io
     \<Rightarrow> (exn + bool \<times> int \<times> string) \<times> io" where
  "bunny_put w storage_zone access_key region_host dkey file_path s =
     (if file_path \<notin> files s then (Inl (OtherException ''FileNotFoundError''), s)
      else case session_request w (put_request storage_zone access_key region_host dkey) s of
             (Raised e, s1) \<Rightarrow> (Inl e, s1)
           | (Response code body err, s1) \<Rightarrow>
               (Inr (code = 200 \<or> code = 201, code, take 200 body), s1))"

text \<open>
  \<^verbatim>\<open>check_file_exists_on_cdn\<close> of \<^verbatim>\<open>ipfs-to-cdn-hogs-json.py\<close>: a HEAD on the storage
  API, inside \<^verbatim>\<open>try ... except Exception: return False\<close>.
\<close>

definition head_request_json :: "string \<Rightarrow> string \<Rightarrow> string option \<Rightarrow> string \<Rightarrow> request" where
  "head_request_json storage_zone access_key region_host dkey =
     \<lparr>meth = HEAD, url = storage_url storage_zone region_host dkey,
      headers = [(''AccessKey'', py_strip access_key)], timeout = 30\<rparr>"

definition check_file_exists_on_cdn_json ::
  "world \<Rightarrow> string \<Rightarrow> string \<Rightarrow> string option \<Rightarrow> string \<Rightarrow> io \<Rightarrow> bool \<times> io" where
  "check_file_exists_on_cdn_json w storage_zone access_key region_host dkey s =
     (case session_request w (head_request_json storage_zone access_key region_host dkey) s of
        (Raised e, s1) \<Rightarrow> (False, s1)
      | (Response code body err, s1) \<Rightarrow> (code = 200, s1))"

text \<open>
  \<^verbatim>\<open>check_file_exists_on_cdn\<close> of \<^verbatim>\<open>ipfs-to-cdn-hogs.py\<close>: a HEAD on the public CDN
  host written in the source, with no headers of its own; the storage parameters are
  accepted and not used.
\<close>

definition head_request_png :: "string \<Rightarrow> request" where
  "head_request_png dkey =
     \<lparr>meth = HEAD, url = ''https://baysed.b-cdn.net/'' @ dkey, headers = [], timeout = 10\<rparr>"

definition check_file_exists_on_cdn_png ::
  "world \<Rightarrow> string \<Rightarrow> string \<Rightarrow> string option \<Rightarrow> string \<Rightarrow> io \<Rightarrow> bool \<times> io" where
  "check_file_exists_on_cdn_png w storage_zone access_key region_host dkey s =
     (case session_request w (head_request_png dkey) s of
        (Raised e, s1) \<Rightarrow> (False, s1)
      | (Response code body err, s1) \<Rightarrow> (code = 200, s1))"

text \<open>
  \<^verbatim>\<open>get_existing_files_on_cdn\<close>: the inner loop over one batch and the outer loop
  \<^verbatim>\<open>for batch_start in range(start_num, end_num + 1, 100)\<close>, with the pause after each
  batch.  The two scripts differ in the check they call and in the extension.
\<close>

fun check_batch ::
  "(string \<Rightarrow> io \<Rightarrow> bool \<times> io) \<Rightarrow> string \<Rightarrow> string \<Rightarrow> int list \<Rightarrow> int set \<times> io \<Rightarrow> int set \<times> io" where
  "check_batch check dest_prefix ext [] acc = acc"
| "check_batch check dest_prefix ext (n # ns) (existing_files, s) =
     (case check (dest_key dest_prefix (filename n ext)) s of
        (found, s1) \<Rightarrow>
          check_batch check dest_prefix ext ns
            (if found then insert n existing_files else existing_files, s1))"

function existing_from ::
  "(string \<Rightarrow> io \<Rightarrow> bool \<times> io) \<Rightarrow> string \<Rightarrow> string \<Rightarrow> int \<Rightarrow> int \<Rightarrow> int set \<times> io \<Rightarrow> int set \<times> io" where
  "existing_from check dest_prefix ext batch_start end_num acc =
     (if batch_start < end_num + 1 then
        (let batch_end = min (batch_start + 100 - 1) end_num
         in case check_batch check dest_prefix ext [batch_start .. batch_end] acc of
              (existing_files, s1) \<Rightarrow>
                existing_from check dest_prefix ext (batch_start + 100) end_num
                  (existing_files, batch_pause s1))
      else acc)"
  by pat_completeness auto
termination
  by (relation "measure (\<lambda>(check, dest_prefix, ext, batch_start, end_num, acc).
        nat (end_num + 1 - batch_start))") auto

declare existing_from.simps [simp del]

definition get_existing_files_on_cdn_json ::
  "world \<Rightarrow> string \<Rightarrow> string \<Rightarrow> string option \<Rightarrow> string \<Rightarrow> int \<Rightarrow> int \<Rightarrow> io \<Rightarrow> int set \<times> io" where
  "get_existing_files_on_cdn_json w storage_zone access_key region_host dest_prefix
       start_num end_num s =
     existing_from (check_file_exists_on_cdn_json w storage_zone access_key region_host)
       dest_prefix ''json'' start_num end_num ({}, s)"

definition get_existing_files_on_cdn_png ::
  "world \<Rightarrow> string \<Rightarrow> string \<Rightarrow> string option \<Rightarrow> string \<Rightarrow> int \<Rightarrow> int \<Rightarrow> io \<Rightarrow> int set \<times> io" where
  "get_existing_files_on_cdn_png w storage_zone access_key region_host dest_prefix
       start_num end_num s =
     existing_from (check_file_exists_on_cdn_png w storage_zone access_key region_host)
       dest_prefix ''png'' start_num end_num ({}, s)"

section \<open>The transfer loop of the IPFS variants\<close>

text \<open>
  The parsed command line.  The three IPFS scripts share most options; \<open>gateways\<close>,
  \<open>max_retries\<close>, \<open>retry_delay\<close> and \<open>resume_from\<close> exist in \<^verbatim>\<open>ipfs-to-cdn-hogs.py\<close>
  only, \<open>skip_cdn_check\<close> in the two hog scripts.
\<close>

record args =
  cid :: string
  gateway :: string
  gateways :: "string list"
  start_number :: int
  end_number :: int
  max_missing :: int
  download_timeout :: int
  max_retries :: int
  retry_delay :: int
  dest_path :: string
  delete_local :: bool
  skip_cdn_check :: bool
  resume_from :: "int option"
  storage_zone :: string
  access_key :: string
  region_host :: "string option"

text \<open>The counters of \<^verbatim>\<open>main\<close> together with the outside state.\<close>

record run_state =
  consecutive_missing :: int
  found_count :: int
  uploaded_count :: int
  skipped_count :: int
  errors_upload :: int
  env :: io

text \<open>
  How one pass through the body of a \<^verbatim>\<open>for\<close> loop ends: it falls through or hits
  \<^verbatim>\<open>continue\<close>, it hits \<^verbatim>\<open>break\<close>, or an exception leaves it.
\<close>

datatype 'a control = Continue 'a | Break 'a | Raise exn 'a

fun for_loop :: "('i \<Rightarrow> 'a \<Rightarrow> 'a control) \<Rightarrow> 'i list \<Rightarrow> 'a \<Rightarrow> 'a control" where
  "for_loop body [] st = Continue st"
| "for_loop body (n # ns) st =
     (case body n st of
        Continue st1 \<Rightarrow> for_loop body ns st1
      | Break st1 \<Rightarrow> Break st1
      | Raise e st1 \<Rightarrow> Raise e st1)"

definition msg_skipped :: "int \<Rightarrow> string" where
  "msg_skipped n = ''['' @ str_int n @ ''] skipped (already exists on CDN)''"

definition msg_missing :: "int \<Rightarrow> int \<Rightarrow> int \<Rightarrow> string" where
  "msg_missing n code streak =
     ''['' @ str_int n @ ''] missing (HTTP '' @ str_int code @ ''); miss streak='' @ str_int streak"

definition msg_stopping :: "int \<Rightarrow> int \<Rightarrow> string" where
  "msg_stopping n streak =
     ''Stopping at n='' @ str_int n @ '': reached '' @ str_int streak @ '' consecutive misses.''"

definition msg_uploaded :: "int \<Rightarrow> string \<Rightarrow> string" where
  "msg_uploaded n dkey = ''['' @ str_int n @ ''] uploaded -> '' @ dkey"

definition msg_upload_failed :: "int \<Rightarrow> int \<Rightarrow> string \<Rightarrow> string" where
  "msg_upload_failed n up_code up_text =
     ''['' @ str_int n @ ''] upload FAILED (HTTP '' @ str_int up_code @ ''): '' @ up_text"

text \<open>
  The body of \<^verbatim>\<open>for n in range(start, end + 1)\<close> in \<^verbatim>\<open>main\<close>.  The three scripts have the
  same body up to the extension, the download function they call and the set of ids
  found on the CDN; \<^verbatim>\<open>ipfs-to-cdn-apes-json.py\<close> has no existence check and no skip
  branch, which is the body with the empty set.
\<close>

definition loop_body ::
  "world \<Rightarrow> args \<Rightarrow> string \<Rightarrow> string \<Rightarrow> string
     \<Rightarrow> (int \<Rightarrow> string \<Rightarrow> io \<Rightarrow> (exn + bool \<times> int) \<times> io)
     \<Rightarrow> int set \<Rightarrow> int \<Rightarrow> run_state \<Rightarrow> run_state control" where
  "loop_body w a ext dest_prefix tempdir download existing_files n st =
     (let fname = filename n ext;
          local_path = tempdir @ ''/'' @ fname;
          dkey = dest_key dest_prefix fname
      in
      if n \<in> existing_files then
        Continue (st\<lparr>skipped_count := skipped_count st + 1,
                     env := (if n mod 100 = 0 then emit (msg_skipped n) (env st) else env st)\<rparr>)
      else
        case download n local_path (env st) of
          (Inl e, s1) \<Rightarrow> Raise e (st\<lparr>env := s1\<rparr>)
        | (Inr (ok, code), s1) \<Rightarrow>
            if \<not> ok then
              (let streak = consecutive_missing st + 1;
                   s2 = (if n mod 25 = 0 then emit (msg_missing n code streak) s1 else s1)
               in if streak \<ge> max_missing a
                  then Break (st\<lparr>consecutive_missing := streak,
                                  env := emit (msg_stopping n streak) s2\<rparr>)
                  else Continue (st\<lparr>consecutive_missing := streak, env := s2\<rparr>))
            else
              (let st1 = st\<lparr>consecutive_missing := 0, found_count := found_count st + 1\<rparr>
               in case bunny_put w (storage_zone a) (access_key a) (region_host a)
                         dkey local_path s1 of
                    (Inl e, s2) \<Rightarrow> Raise e (st1\<lparr>env := s2\<rparr>)
                  | (Inr (up_ok, up_code, up_text), s2) \<Rightarrow>
                      if up_ok then
                        Continue (st1\<lparr>uploaded_count := uploaded_count st + 1,
                          env := (let s3 = emit (msg_uploaded n dkey) s2
                                  in if delete_local a then unlink local_path s3 else s3)\<rparr>)
                      else
                        Continue (st1\<lparr>errors_upload := errors_upload st + 1,
                          env := emit (msg_upload_failed n up_code up_text) s2\<rparr>)))"

text \<open>
  The download calls as \<^verbatim>\<open>main\<close> writes them:
  \<^verbatim>\<open>download_json(session, args.gateway, args.cid, n, local_path, args.download_timeout)\<close>
  and \<^verbatim>\<open>download_png(session, args.gateways, args.cid, n, local_path,
  args.download_timeout, args.max_retries, args.retry_delay)\<close>.  The second catches
  every exception of a GET itself; the exception of a refused back-off pause reaches
  \<^verbatim>\<open>main\<close>.
\<close>

definition download_call_json ::
  "world \<Rightarrow> args \<Rightarrow> int \<Rightarrow> string \<Rightarrow> io \<Rightarrow> (exn + bool \<times> int) \<times> io" where
  "download_call_json w a n out_file s =
     download_json w (gateway a) (cid a) n out_file (download_timeout a) s"

definition download_call_png ::
  "world \<Rightarrow> args \<Rightarrow> int \<Rightarrow> string \<Rightarrow> io \<Rightarrow> (exn + bool \<times> int) \<times> io" where
  "download_call_png w a n out_file s =
     download_png w (gateways a) (cid a) n out_file (download_timeout a)
       (max_retries a) (retry_delay a) s"

text \<open>
  \<^verbatim>\<open>dest_prefix = args.dest_path.strip()\<close>, with a slash appended when it is not empty
  and has none.
\<close>

definition normalize_prefix :: "string \<Rightarrow> string" where
  "normalize_prefix dp =
     (let p = py_strip dp in if p \<noteq> [] \<and> \<not> endswith p ''/'' then p @ ''/'' else p)"

definition state0 :: "io \<Rightarrow> run_state" where
  "state0 s = \<lparr>consecutive_missing = 0, found_count = 0, uploaded_count = 0,
               skipped_count = 0, errors_upload = 0, env = s\<rparr>"

text \<open>
  How \<^verbatim>\<open>main\<close> ends: \<^verbatim>\<open>sys.exit(1)\<close> for missing credentials, a normal end after the
  summary, or an exception that leaves \<^verbatim>\<open>main\<close>.
\<close>

datatype run_outcome = SysExit int | Completed run_state | Uncaught exn run_state

definition msg_done_apes :: "run_state \<Rightarrow> string" where
  "msg_done_apes st =
     ''Done. Found: '' @ str_int (found_count st) @ '', Uploaded: '' @ str_int (uploaded_count st)
       @ '', Upload errors: '' @ str_int (errors_upload st)"

definition msg_done_hogs :: "run_state \<Rightarrow> string" where
  "msg_done_hogs st =
     ''Done. Found: '' @ str_int (found_count st) @ '', Uploaded: '' @ str_int (uploaded_count st)
       @ '', Skipped: '' @ str_int (skipped_count st)
       @ '', Upload errors: '' @ str_int (errors_upload st)"

text \<open>
  The lines after the loop: the summary, then the temp directory is removed when no
  upload failed and local deletion is on, and kept otherwise.
\<close>

definition finish :: "args \<Rightarrow> string \<Rightarrow> string \<Rightarrow> run_state \<Rightarrow> run_state" where
  "finish a tempdir done_line st =
     (let s1 = emit done_line (env st)
      in if errors_upload st = 0 \<and> delete_local a
         then st\<lparr>env := emit ''Local temp files deleted.'' (rmtree s1)\<rparr>
         else st\<lparr>env := emit (''Local files kept at: '' @ tempdir) s1\<rparr>)"

definition credentials_missing :: "args \<Rightarrow> bool" where
  "credentials_missing a \<longleftrightarrow> storage_zone a = [] \<or> access_key a = []"

text \<open>\<^verbatim>\<open>main\<close> of \<^verbatim>\<open>ipfs-to-cdn-apes-json.py\<close>; \<open>tempdir\<close> is what \<^verbatim>\<open>mkdtemp\<close> returned.\<close>

definition main_apes_json :: "world \<Rightarrow> args \<Rightarrow> string \<Rightarrow> run_outcome" where
  "main_apes_json w a tempdir =
     (if credentials_missing a then SysExit 1
      else
        let dest_prefix = normalize_prefix (dest_path a)
        in case for_loop
                  (loop_body w a ''json'' dest_prefix tempdir
                     (download_call_json w a)
                     {})
                  [start_number a .. end_number a] (state0 io0) of
             Raise e st \<Rightarrow> Uncaught e st
           | Continue st \<Rightarrow> Completed (finish a tempdir (msg_done_apes st) st)
           | Break st \<Rightarrow> Completed (finish a tempdir (msg_done_apes st) st))"

text \<open>
  \<^verbatim>\<open>main\<close> of \<^verbatim>\<open>ipfs-to-cdn-hogs-json.py\<close>.  The existence check runs before the
  \<^verbatim>\<open>try\<close>; an exception in the loop is logged and raised again.
\<close>

definition main_hogs_json :: "world \<Rightarrow> args \<Rightarrow> string \<Rightarrow> run_outcome" where
  "main_hogs_json w a tempdir =
     (if credentials_missing a then SysExit 1
      else
        let dest_prefix = normalize_prefix (dest_path a);
            (existing_files, s1) =
               (if \<not> skip_cdn_check a
                then get_existing_files_on_cdn_json w (storage_zone a) (access_key a)
                       (region_host a) dest_prefix (start_number a) (end_number a) io0
                else ({}, io0))
        in case for_loop
                  (loop_body w a ''json'' dest_prefix tempdir
                     (download_call_json w a)
                     existing_files)
                  [start_number a .. end_number a] (state0 s1) of
             Raise e st \<Rightarrow> Uncaught e (st\<lparr>env := emit (''Unexpected error: '' @ str_exn e) (env st)\<rparr>)
           | Continue st \<Rightarrow> Completed (finish a tempdir (msg_done_hogs st) st)
           | Break st \<Rightarrow> Completed (finish a tempdir (msg_done_hogs st) st))"

text \<open>
  \<^verbatim>\<open>main\<close> of \<^verbatim>\<open>ipfs-to-cdn-hogs.py\<close>: the range starts at \<^verbatim>\<open>--resume-from\<close> when that
  is given and not zero, and the download goes through every gateway.  The start-up
  banner reads \<^verbatim>\<open>args.gateways[0]\<close> before the existence check and outside the \<^verbatim>\<open>try\<close>;
  the command line (\<^verbatim>\<open>nargs="+"\<close>) never gives an empty list, and the model lets the
  \<^verbatim>\<open>IndexError\<close> of an empty one leave \<^verbatim>\<open>main\<close>.
\<close>

definition resume_start :: "args \<Rightarrow> int" where
  "resume_start a =
     (case resume_from a of
        None \<Rightarrow> start_number a
      | Some r \<Rightarrow> if r \<noteq> 0 then r else start_number a)"

definition main_hogs :: "world \<Rightarrow> args \<Rightarrow> string \<Rightarrow> run_outcome" where
  "main_hogs w a tempdir =
     (if credentials_missing a then SysExit 1
      else if gateways a = [] then
        Uncaught (OtherException ''IndexError: list index out of range'') (state0 io0)
      else
        let start = resume_start a;
            dest_prefix = normalize_prefix (dest_path a);
            (existing_files, s1) =
               (if \<not> skip_cdn_check a
                then get_existing_files_on_cdn_png w (storage_zone a) (access_key a)
                       (region_host a) dest_prefix start (end_number a) io0
                else ({}, io0))
        in case for_loop
                  (loop_body w a ''png'' dest_prefix tempdir
                     (download_call_png w a)
                     existing_files)
                  [start .. end_number a] (state0 s1) of
             Raise e st \<Rightarrow> Uncaught e (st\<lparr>env := emit (''Unexpected error: '' @ str_exn e) (env st)\<rparr>)
           | Continue st \<Rightarrow> Completed (finish a tempdir (msg_done_hogs st) st)
           | Break st \<Rightarrow> Completed (finish a tempdir (msg_done_hogs st) st))"

section \<open>The tabular variant\<close>

text \<open>
  A row of \<^verbatim>\<open>csv.DictReader\<close> maps column names to cells.  A cell is text, or
  \<^verbatim>\<open>None\<close> where the line was shorter than the header.
\<close>

datatype cell = Str string | NoneCell

type_synonym row = "string \<rightharpoonup> cell"

text \<open>\<^verbatim>\<open>row.get(key, default)\<close>\<close>

definition row_get :: "row \<Rightarrow> string \<Rightarrow> string \<Rightarrow> cell" where
  "row_get r k d = (case r k of None \<Rightarrow> Str d | Some c \<Rightarrow> c)"

text \<open>\<^verbatim>\<open>str(x)\<close> as an f-string prints a cell\<close>

fun str_cell :: "cell \<Rightarrow> string" where
  "str_cell (Str t) = t"
| "str_cell NoneCell = ''None''"

text \<open>\<^verbatim>\<open>name.split("#")[-1]\<close>: what follows the last \<^verbatim>\<open>#\<close>\<close>

definition after_last_hash :: "string \<Rightarrow> string" where
  "after_last_hash name = rev (takeWhile (\<lambda>c. c \<noteq> CHR ''#'') (rev name))"

text \<open>\<^verbatim>\<open>"#" in name\<close> raises \<^verbatim>\<open>TypeError\<close> when \<open>name\<close> is \<^verbatim>\<open>None\<close>.\<close>

definition none_not_iterable :: exn where
  "none_not_iterable =
     TypeError (''argument of type '' @ [CHR 0x27] @ ''NoneType'' @ [CHR 0x27] @ '' is not iterable'')"

datatype edition = EdInt int | EdStr string

definition attribute_mapping :: "(string \<times> string) list" where
  "attribute_mapping =
     [(''Attribute Background'', ''Background''),
      (''Attribute Body'', ''Body''),
      (''Attribute Headwear'', ''Headwear''),
      (''Attribute Eyes'', ''Eyes''),
      (''Attribute Clothing'', ''Clothing''),
      (''Attribute Mouth'', ''Mouth''),
      (''Attribute Tusks'', ''Tusks'')]"

definition extract_attributes_from_row :: "row \<Rightarrow> (string \<times> string) list" where
  "extract_attributes_from_row r =
     concat (map (\<lambda>(csv_col, trait_type).
                    case r csv_col of
                      Some (Str v) \<Rightarrow>
                        if v \<noteq> [] \<and> py_strip v \<noteq> [] then [(trait_type, py_strip v)] else []
                    | _ \<Rightarrow> [])
                 attribute_mapping)"

record metadata =
  md_name :: cell
  md_description :: cell
  md_image :: cell
  md_dna :: cell
  md_edition :: edition
  md_date :: int
  md_creator :: cell
  md_artist :: cell
  md_attributes :: "(string \<times> string) list"

definition create_metadata_json :: "row \<Rightarrow> exn + metadata" where
  "create_metadata_json r =
     (case row_get r ''Name'' [] of
        NoneCell \<Rightarrow> Inl none_not_iterable
      | Str name \<Rightarrow>
          let ed =
                (if CHR ''#'' \<in> set name then
                   (let edition_str = py_strip (after_last_hash name)
                    in case py_int edition_str of
                         Some i \<Rightarrow> EdInt i
                       | None \<Rightarrow> EdStr edition_str)
                 else EdStr ''unknown'')
          in Inr \<lparr>md_name = Str name,
                  md_description = row_get r ''Description''
                    ''The HOGs are a collection of 8888 unique HOG NFTs living on the XRP ledger.'',
                  md_image = row_get r ''Image'' [],
                  md_dna = row_get r ''Dna'' [],
                  md_edition = ed,
                  md_date = 1674756786096,
                  md_creator = row_get r ''Creator'' ''Bored Apes XRP Club'',
                  md_artist = row_get r ''Artist'' ''Bored Apes XRP Club'',
                  md_attributes = extract_attributes_from_row r\<rparr>)"

text \<open>
  \<^verbatim>\<open>bunny_put_json\<close>: the document is sent from memory; any status but 200 and 201
  raises \<^verbatim>\<open>RuntimeError\<close>.
\<close>

definition put_json_request :: "string \<Rightarrow> string \<Rightarrow> string option \<Rightarrow> string \<Rightarrow> request" where
  "put_json_request sz ak rh dkey =
     \<lparr>meth = PUT, url = storage_url sz rh dkey,
      headers = [(''AccessKey'', py_strip ak), (''Content-Type'', ''application/json'')],
      timeout = 180\<rparr>"

definition bunny_put_json ::
  "world \<Rightarrow> string \<Rightarrow> string \<Rightarrow> string option \<Rightarrow> string \<Rightarrow> io \<Rightarrow> (exn + bool) \<times> io" where
  "bunny_put_json w sz ak rh dkey s =
     (case session_request w (put_json_request sz ak rh dkey) s of
        (Raised e, s1) \<Rightarrow> (Inl e, s1)
      | (Response code body err, s1) \<Rightarrow>
          if code \<noteq> 200 \<and> code \<noteq> 201
          then (Inl (RuntimeError (''Bunny upload failed ('' @ str_int code @ ''): ''
                                   @ take 200 body)), s1)
          else (Inr True, s1))"

text \<open>
  The file name part that \<^verbatim>\<open>process_nft_row\<close> derives from the edition of the
  metadata, with its fallback to the \<^verbatim>\<open>Name\<close> field.
\<close>

definition edition_str_of :: "row \<Rightarrow> edition \<Rightarrow> exn + string" where
  "edition_str_of r ed =
     (case ed of
        EdInt i \<Rightarrow> Inr (str_int i)
      | EdStr t \<Rightarrow>
          if t = [] \<or> t = ''unknown'' then
            (case row_get r ''Name'' [] of
               NoneCell \<Rightarrow> Inl none_not_iterable
             | Str name \<Rightarrow>
                 Inr (if CHR ''#'' \<in> set name then py_strip (after_last_hash name)
                      else ''unknown''))
          else Inr t)"

text \<open>
  \<^verbatim>\<open>process_nft_row\<close>: everything is inside \<^verbatim>\<open>try\<close>; the handler returns the failure
  with the row's name and the text of the exception.
\<close>

definition process_nft_row ::
  "world \<Rightarrow> row \<Rightarrow> string \<Rightarrow> string \<Rightarrow> string option \<Rightarrow> string \<Rightarrow> io
     \<Rightarrow> (bool \<times> cell \<times> string option) \<times> io" where
  "process_nft_row w r sz ak rh dest_prefix s =
     (let handler = (\<lambda>e s1. ((False, row_get r ''Name'' ''unknown'', Some (str_exn e)), s1))
      in case create_metadata_json r of
           Inl e \<Rightarrow> handler e s
         | Inr md \<Rightarrow>
             (case edition_str_of r (md_edition md) of
                Inl e \<Rightarrow> handler e s
              | Inr edition_str \<Rightarrow>
                  (let dkey = dest_prefix @ edition_str @ ''.json''
                   in case bunny_put_json w sz ak rh dkey s of
                        (Inl e, s1) \<Rightarrow> handler e s1
                      | (Inr ok, s1) \<Rightarrow> ((True, Str edition_str, None), s1))))"

record csv_args =
  csv_dest_path :: string
  csv_start_row :: int
  csv_max_rows :: "int option"
  csv_dry_run :: bool
  csv_storage_zone :: string
  csv_access_key :: string
  csv_region_host :: "string option"

text \<open>\<^verbatim>\<open>rows[start_idx:end_idx]\<close> with Python's treatment of negative and large indices\<close>

definition slice_index :: "nat \<Rightarrow> int \<Rightarrow> nat" where
  "slice_index len i = (if i < 0 then nat (max (int len + i) 0) else min (nat i) len)"

definition py_slice :: "'a list \<Rightarrow> int \<Rightarrow> int \<Rightarrow> 'a list" where
  "py_slice xs i j =
     drop (slice_index (length xs) i) (take (slice_index (length xs) j) xs)"

record csv_summary =
  success_count :: int
  error_count :: int
  errors :: "string list"
  csv_env :: io

text \<open>
  The tally over the results.  The script hands the rows to a thread pool and counts
  the results as they complete; the model runs the rows one after the other in the
  order of the file, which is one of the schedules of the pool.
\<close>

fun collect_results ::
  "world \<Rightarrow> csv_args \<Rightarrow> string \<Rightarrow> row list \<Rightarrow> csv_summary \<Rightarrow> csv_summary" where
  "collect_results w a dest_prefix [] sm = sm"
| "collect_results w a dest_prefix (r # rs) sm =
     (case process_nft_row w r (csv_storage_zone a) (csv_access_key a) (csv_region_host a)
             dest_prefix (csv_env sm) of
        ((success, identifier, error), s1) \<Rightarrow>
          collect_results w a dest_prefix rs
            (if success
             then sm\<lparr>success_count := success_count sm + 1, csv_env := s1\<rparr>
             else sm\<lparr>error_count := error_count sm + 1,
                     errors := errors sm @ [str_cell identifier @ '': ''
                                            @ (case error of None \<Rightarrow> ''None'' | Some m \<Rightarrow> m)],
                     csv_env := s1\<rparr>))"

datatype csv_outcome = CsvExit int | NoRows | DryRun | Processed csv_summary

text \<open>
  \<^verbatim>\<open>main\<close> of \<^verbatim>\<open>csv-to-json-to-cdn-hog.py\<close>; \<open>rows\<close> is what reading the file gave, or
  \<open>None\<close> when the file is missing or cannot be read.
\<close>

definition main_csv :: "world \<Rightarrow> csv_args \<Rightarrow> row list option \<Rightarrow> csv_outcome" where
  "main_csv w a file =
     (if csv_storage_zone a = [] \<or> csv_access_key a = [] then CsvExit 1
      else case file of
             None \<Rightarrow> CsvExit 1
           | Some rows \<Rightarrow>
               let dest_prefix = normalize_prefix (csv_dest_path a);
                   start_idx = csv_start_row a;
                   end_idx = (case csv_max_rows a of
                                None \<Rightarrow> int (length rows)
                              | Some m \<Rightarrow> if m \<noteq> 0 then min (start_idx + m) (int (length rows))
                                          else int (length rows));
                   rows_to_process = py_slice rows start_idx end_idx
               in if rows_to_process = [] then NoRows
                  else if csv_dry_run a then DryRun
                  else Processed (collect_results w a dest_prefix rows_to_process
                         \<lparr>success_count = 0, error_count = 0, errors = [], csv_env = io0\<rparr>))"

section \<open>Vocabulary for stating properties of a run\<close>

text \<open>
  The requests that the scripts send for candidate \<open>n\<close>, the state and the trace
  that a run leaves behind, and the requests in a trace.
\<close>

definition get_req_json :: "args \<Rightarrow> int \<Rightarrow> request" where
  "get_req_json a n =
     get_request (ipfs_url (gateway a) (cid a) (filename n ''json'')) (download_timeout a)"

definition put_req :: "args \<Rightarrow> string \<Rightarrow> string \<Rightarrow> int \<Rightarrow> request" where
  "put_req a dest_prefix ext n =
     put_request (storage_zone a) (access_key a) (region_host a)
       (dest_key dest_prefix (filename n ext))"

definition head_req_json :: "args \<Rightarrow> string \<Rightarrow> int \<Rightarrow> request" where
  "head_req_json a dest_prefix n =
     head_request_json (storage_zone a) (access_key a) (region_host a)
       (dest_key dest_prefix (filename n ''json''))"

fun state_of :: "'a control \<Rightarrow> 'a" where
  "state_of (Continue st) = st"
| "state_of (Break st) = st"
| "state_of (Raise e st) = st"

fun requests_of :: "event list \<Rightarrow> request list" where
  "requests_of [] = []"
| "requests_of (Http r res # evs) = r # requests_of evs"
| "requests_of (ev # evs) = requests_of evs"

fun outcome_trace :: "run_outcome \<Rightarrow> event list" where
  "outcome_trace (SysExit c) = []"
| "outcome_trace (Completed st) = trace (env st)"
| "outcome_trace (Uncaught e st) = trace (env st)"

text \<open>
  What a world may do with a request, at every moment of a run: serve it (status 200
  and a body that arrives whole), answer it (a response that the session hands back:
  no exception and no status of the retry list), answer it with such a status other than
  200, or accept it (status 200 or 201).
\<close>

definition served :: "world \<Rightarrow> request \<Rightarrow> bool" where
  "served w r \<longleftrightarrow> (\<forall>t. \<exists>body. w t r = Response 200 body None)"

definition answered :: "world \<Rightarrow> request \<Rightarrow> bool" where
  "answered w r \<longleftrightarrow>
     (\<forall>t. \<exists>code body err. w t r = Response code body err \<and> code \<notin> set status_forcelist)"

definition absent :: "world \<Rightarrow> request \<Rightarrow> bool" where
  "absent w r \<longleftrightarrow>
     (\<forall>t. \<exists>code body err.
        w t r = Response code body err \<and> code \<noteq> 200 \<and> code \<notin> set status_forcelist)"

definition accepted :: "world \<Rightarrow> request \<Rightarrow> bool" where
  "accepted w r \<longleftrightarrow>
     (\<forall>t. \<exists>code body err. w t r = Response code body err \<and> (code = 200 \<or> code = 201))"

text \<open>
  A run of a JSON variant halts at id \<open>n\<close>: it ends normally, the last request it sent is
  the GET for \<open>n\<close>, and it wrote the stop line for \<open>n\<close> with its final streak.
\<close>

definition halts_at :: "args \<Rightarrow> run_outcome \<Rightarrow> int \<Rightarrow> bool" where
  "halts_at a out n \<longleftrightarrow>
     (case out of
        Completed st \<Rightarrow>
          requests_of (trace (env st)) \<noteq> []
          \<and> last (requests_of (trace (env st))) = get_req_json a n
          \<and> Print (msg_stopping n (consecutive_missing st)) \<in> set (trace (env st))
      | _ \<Rightarrow> False)"

text \<open>
  The defaults of \<^verbatim>\<open>ipfs-to-cdn-apes-json.py\<close>, with sample credentials in place of
  the environment variables, and a temp directory name.
\<close>

definition apes_defaults :: args where
  "apes_defaults =
     \<lparr>cid = ''bafybeifi6awhcvqrzgsh37ribjk62ozzsrekql7p7rqnobuggu5jjl2d2i'',
      gateway = ''https://ipfs.io'',
      gateways = [],
      start_number = 1,
      end_number = 10000,
      max_missing = 75,
      download_timeout = 180,
      max_retries = 3,
      retry_delay = 5,
      dest_path = ''ape_jsons/'',
      delete_local = True,
      skip_cdn_check = False,
      resume_from = None,
      storage_zone = ''zone'',
      access_key = ''key'',
      region_host = None\<rparr>"

definition sample_tempdir :: string where
  "sample_tempdir = ''/tmp/ipfs_dl_0''"

text \<open>
  A synthetic source and destination: the ids from the start of the range up to, not
  including, \<open>k\<close> are served with 200, every other GET is answered 404, and every other
  request (the uploads) is answered 201.
\<close>

definition dense_prefix_world :: "args \<Rightarrow> int \<Rightarrow> world" where
  "dense_prefix_world a k t r =
     (if meth r = GET then
        (if r \<in> get_req_json a ` {start_number a ..< k}
         then Response 200 [] None else Response 404 [] None)
      else Response 201 [] None)"

text \<open>A source that has nothing: every request is answered 404.\<close>

definition absent_world :: world where
  "absent_world t r = Response 404 [] None"

text \<open>A destination that cannot be reached: every request ends in a timeout.\<close>

definition timeout_world :: world where
  "timeout_world t r = Raised (Timeout ''timed out'')"

text \<open>The defaults of \<^verbatim>\<open>ipfs-to-cdn-hogs-json.py\<close>, with sample credentials.\<close>

definition hogs_json_defaults :: args where
  "hogs_json_defaults =
     \<lparr>cid = ''bafybeifi6awhcvqrzgsh37ribjk62ozzsrekql7p7rqnobuggu5jjl2d2i'',
      gateway = ''https://ipfs.io'',
      gateways = [],
      start_number = 1,
      end_number = 8888,
      max_missing = 75,
      download_timeout = 180,
      max_retries = 3,
      retry_delay = 5,
      dest_path = ''hog_jsons/'',
      delete_local = True,
      skip_cdn_check = False,
      resume_from = None,
      storage_zone = ''zone'',
      access_key = ''key'',
      region_host = None\<rparr>"

text \<open>
  For the multi-gateway download: the sleeps in a trace, the exchanges that were
  answered 404, the outcomes after which \<^verbatim>\<open>download_png\<close> goes on to the next gateway
  (an exception, or a status that is neither 200 nor 404), and the events that a call
  added to the trace.
\<close>

fun sleeps_of :: "event list \<Rightarrow> int list" where
  "sleeps_of [] = []"
| "sleeps_of (Sleep secs # evs) = secs # sleeps_of evs"
| "sleeps_of (ev # evs) = sleeps_of evs"

fun is_404 :: "event \<Rightarrow> bool" where
  "is_404 (Http r (Response code body err)) = (code = 404)"
| "is_404 ev = False"

fun transient :: "http_result \<Rightarrow> bool" where
  "transient (Raised e) = True"
| "transient (Response code body err) = (code \<noteq> 200 \<and> code \<noteq> 404)"

definition events_since :: "io \<Rightarrow> io \<Rightarrow> event list" where
  "events_since s s1 = drop (length (trace s)) (trace s1)"

text \<open>
  Every back-off pause of a download with \<open>max_retries\<close> rounds and base delay
  \<open>retry_delay\<close> is a length that \<^verbatim>\<open>time.sleep\<close> accepts.
\<close>

definition pauses_accepted :: "int \<Rightarrow> int \<Rightarrow> bool" where
  "pauses_accepted mr rd \<longleftrightarrow>
     list_all (\<lambda>a. 0 \<le> rd * 2 ^ a \<and> rd * 2 ^ a \<le> sleep_max) [0 ..< nat mr - 1]"

text \<open>The defaults of \<^verbatim>\<open>ipfs-to-cdn-hogs.py\<close>, with sample credentials.\<close>

definition hogs_defaults :: args where
  "hogs_defaults =
     \<lparr>cid = ''bafybeiac27xcgv3oer2j3p6xvuh4vr2pxlp6hdpywucqkiraw6y3h35cke'',
      gateway = ''https://ipfs.io'',
      gateways = [''https://ipfs.io'', ''https://gateway.pinata.cloud'', ''https://dweb.link''],
      start_number = 2951,
      end_number = 8888,
      max_missing = 75,
      download_timeout = 180,
      max_retries = 3,
      retry_delay = 5,
      dest_path = ''hog_images/'',
      delete_local = True,
      skip_cdn_check = False,
      resume_from = None,
      storage_zone = ''zone'',
      access_key = ''key'',
      region_host = None\<rparr>"

text \<open>
  A source that answers 503 on the first exchange, times out on the second, and answers
  404 from the third exchange on.
\<close>

definition flaky_then_404 :: world where
  "flaky_then_404 t r =
     (if t = 0 then Response 503 [] None
      else if t = 1 then Raised (Timeout ''timed out'')
      else Response 404 [] None)"

text \<open>
  For the tabular variant: the file-name id that belongs to a name (what follows the
  last \<^verbatim>\<open>#\<close>, trimmed, in canonical decimal form when it reads as an integer, and
  \<^verbatim>\<open>unknown\<close> for a name without \<^verbatim>\<open>#\<close>), the edition recorded for a row, a sample row
  and a destination that accepts every upload.
\<close>

definition name_id :: "string \<Rightarrow> string" where
  "name_id name =
     (if CHR ''#'' \<in> set name then
        (case py_int (py_strip (after_last_hash name)) of
           Some i \<Rightarrow> str_int i
         | None \<Rightarrow> py_strip (after_last_hash name))
      else ''unknown'')"

definition edition_of_row :: "row \<Rightarrow> edition option" where
  "edition_of_row r =
     (case create_metadata_json r of Inl e \<Rightarrow> None | Inr md \<Rightarrow> Some (md_edition md))"

definition sample_row :: "string \<Rightarrow> row" where
  "sample_row name = [''Name'' \<mapsto> Str name, ''Attribute Body'' \<mapsto> Str '' Pink '']"

definition accepting_world :: world where
  "accepting_world t r = Response 201 [] None"

text \<open>
  A source that serves everything and a destination that answers the upload to one URL
  with the given status, on every attempt, and every other request with 200.
\<close>

definition upload_status_at :: "int \<Rightarrow> string \<Rightarrow> world" where
  "upload_status_at code u t r =
     (if meth r = PUT \<and> url r = u then Response code ''error'' None
      else Response 200 [] None)"

text \<open>Six rows named \<^verbatim>\<open>HOG #5\<close> to \<^verbatim>\<open>HOG #10\<close>, and the command line of the tabular variant.\<close>

definition six_rows :: "row list" where
  "six_rows = map (\<lambda>n. sample_row (''HOG #'' @ str_int n)) [5, 6, 7, 8, 9, 10]"

definition csv_defaults :: csv_args where
  "csv_defaults =
     \<lparr>csv_dest_path = ''hog_jsons/'',
      csv_start_row = 0,
      csv_max_rows = None,
      csv_dry_run = False,
      csv_storage_zone = ''zone'',
      csv_access_key = ''key'',
      csv_region_host = None\<rparr>"

text \<open>
  A destination on which the given URLs exist and an empty source: a HEAD for one of
  the URLs is answered 200, every other request 404.
\<close>

definition cdn_has :: "string list \<Rightarrow> world" where
  "cdn_has urls t r =
     (if meth r = HEAD \<and> url r \<in> set urls then Response 200 [] None
      else Response 404 [] None)"

text \<open>
  For the image variant: the GET that \<^verbatim>\<open>download_png\<close> sends to gateway \<open>g\<close> for candidate
  \<open>n\<close>, and the HEAD of its existence check.  A request is gone on a world when it is
  answered 404 at every moment, and unseen when it is never answered 200 (so that the
  existence check never reports it).
\<close>

definition get_req_png :: "args \<Rightarrow> string \<Rightarrow> int \<Rightarrow> request" where
  "get_req_png a g n =
     get_request (ipfs_url g (cid a) (filename n ''png'')) (download_timeout a)"

definition head_req_png :: "string \<Rightarrow> int \<Rightarrow> request" where
  "head_req_png dest_prefix n = head_request_png (dest_key dest_prefix (filename n ''png''))"

definition gone :: "world \<Rightarrow> request \<Rightarrow> bool" where
  "gone w r \<longleftrightarrow> (\<forall>t. \<exists>body err. w t r = Response 404 body err)"

definition unseen :: "world \<Rightarrow> request \<Rightarrow> bool" where
  "unseen w r \<longleftrightarrow>
     (\<forall>t. case w t r of Response code body err \<Rightarrow> code \<noteq> 200 | Raised e \<Rightarrow> True)"

text \<open>
  What the loop sees of a download, whatever the state it is called in: a hit (the call
  returns \<open>ok\<close> and the local file is there) or a miss (the call returns not \<open>ok\<close>, with
  some status).
\<close>

definition fetched :: "(string \<Rightarrow> io \<Rightarrow> (exn + bool \<times> int) \<times> io) \<Rightarrow> string \<Rightarrow> bool" where
  "fetched d out \<longleftrightarrow> (\<forall>s. \<exists>code s1. d out s = (Inr (True, code), s1) \<and> out \<in> files s1)"

definition missed :: "(string \<Rightarrow> io \<Rightarrow> (exn + bool \<times> int) \<times> io) \<Rightarrow> string \<Rightarrow> bool" where
  "missed d out \<longleftrightarrow> (\<forall>s. \<exists>code s1. d out s = (Inr (False, code), s1))"

text \<open>
  A run stops at id \<open>n\<close>: it ends normally and wrote the stop line for \<open>n\<close> with its final
  streak.
\<close>

definition stops_at :: "run_outcome \<Rightarrow> int \<Rightarrow> bool" where
  "stops_at out n \<longleftrightarrow>
     (case out of
        Completed st \<Rightarrow> Print (msg_stopping n (consecutive_missing st)) \<in> set (trace (env st))
      | _ \<Rightarrow> False)"

text \<open>
  A synthetic source for the image variant: the first gateway serves the ids from the
  start of the range up to, not including, \<open>k\<close>; every other GET is answered 404 and
  every other request 201.
\<close>

definition dense_png_world :: "args \<Rightarrow> int \<Rightarrow> world" where
  "dense_png_world a k t r =
     (if meth r = GET then
        (if r \<in> get_req_png a (hd (gateways a)) ` {start_number a ..< k}
         then Response 200 [] None else Response 404 [] None)
      else Response 201 [] None)"

text \<open>
  For two runs against one destination: a request is present on a world when it is
  answered 200 at every moment; an id was uploaded in a run when the trace of the run
  holds its PUT with the answer 200 or 201; and a world is the same destination after
  a run when every id uploaded in the run is present for the existence check, which
  asks the storage API in \<^verbatim>\<open>ipfs-to-cdn-hogs-json.py\<close> and the public host in
  \<^verbatim>\<open>ipfs-to-cdn-hogs.py\<close>.
\<close>

definition present :: "world \<Rightarrow> request \<Rightarrow> bool" where
  "present w r \<longleftrightarrow> (\<forall>t. \<exists>body err. w t r = Response 200 body err)"

fun put_accepted :: "request \<Rightarrow> event \<Rightarrow> bool" where
  "put_accepted r (Http r1 (Response code body err)) = (r1 = r \<and> (code = 200 \<or> code = 201))"
| "put_accepted r ev = False"

definition uploaded_in :: "args \<Rightarrow> string \<Rightarrow> run_outcome \<Rightarrow> int \<Rightarrow> bool" where
  "uploaded_in a ext out n \<longleftrightarrow>
     list_ex (put_accepted (put_req a (normalize_prefix (dest_path a)) ext n))
       (outcome_trace out)"

definition same_destination_json :: "args \<Rightarrow> run_outcome \<Rightarrow> world \<Rightarrow> bool" where
  "same_destination_json a out w \<longleftrightarrow>
     (\<forall>n. uploaded_in a ''json'' out n
        \<longrightarrow> present w (head_req_json a (normalize_prefix (dest_path a)) n))"

definition same_destination_png :: "args \<Rightarrow> run_outcome \<Rightarrow> world \<Rightarrow> bool" where
  "same_destination_png a out w \<longleftrightarrow>
     (\<forall>n. uploaded_in a ''png'' out n
        \<longrightarrow> present w (head_req_png (normalize_prefix (dest_path a)) n))"

text \<open>
  A first run against an empty destination with everything at the source: HEAD is
  answered 404, GET 200 and PUT 201.  A later world on which everything exists.
\<close>

definition first_run_world :: world where
  "first_run_world t r =
     (if meth r = HEAD then Response 404 [] None
      else if meth r = GET then Response 200 [] None
      else Response 201 [] None)"

definition all_present_world :: world where
  "all_present_world t r = Response 200 [] None"

text \<open>
  An upload that failed: a PUT that the session handed back with a status other than
  200 and 201.
\<close>

fun upload_failed :: "event \<Rightarrow> bool" where
  "upload_failed (Http r (Response code body err)) =
     (meth r = PUT \<and> code \<noteq> 200 \<and> code \<noteq> 201 \<and> code \<notin> set status_forcelist)"
| "upload_failed ev = False"

section \<open>Facts about decimal rendering\<close>

lemma below_ten_cases:
  "d < 10 \<Longrightarrow> d \<in> {0, 1, 2, 3, 4, 5, 6, 7, 8, 9::nat}"
  by auto

lemma digit_val_digit_char: "d < 10 \<Longrightarrow> digit_val (digit_char d) = d"
  using below_ten_cases [of d]
  by (auto simp add: digit_val_def digit_char_def digit_chars_def)

lemma is_digit_digit_char: "d < 10 \<Longrightarrow> is_digit (digit_char d)"
  using below_ten_cases [of d]
  by (auto simp add: is_digit_def digit_char_def digit_chars_def)

lemma digit_not_space: "is_digit c \<Longrightarrow> \<not> is_space c"
  by (auto simp add: is_digit_def digit_chars_def is_space_def)

lemma digit_not_underscore: "is_digit c \<Longrightarrow> c \<noteq> CHR ''_''"
  by (auto simp add: is_digit_def digit_chars_def)

lemma digit_not_sign: "is_digit c \<Longrightarrow> c \<noteq> CHR ''-'' \<and> c \<noteq> CHR ''+''"
  by (auto simp add: is_digit_def digit_chars_def)

lemma digits_nat_all_digits: "\<forall>c \<in> set (digits_nat n). is_digit c"
proof (induction n rule: digits_nat.induct)
  case (1 n)
  show ?case
  proof (cases "n < 10")
    case True
    then show ?thesis
      by (simp add: digits_nat.simps [of n] is_digit_digit_char)
  next
    case False
    with 1 show ?thesis
      by (simp add: digits_nat.simps [of n] is_digit_digit_char)
  qed
qed

lemma digits_nat_nonempty: "digits_nat n \<noteq> []"
  by (subst digits_nat.simps) simp

lemma nat_of_digits_snoc:
  "nat_of_digits (ds @ [c]) = 10 * nat_of_digits ds + digit_val c"
  by (simp add: nat_of_digits_def)

lemma nat_of_digits_digits_nat: "nat_of_digits (digits_nat n) = n"
proof (induction n rule: digits_nat.induct)
  case (1 n)
  show ?case
  proof (cases "n < 10")
    case True
    then show ?thesis
      by (simp add: digits_nat.simps [of n] nat_of_digits_def digit_val_digit_char)
  next
    case False
    then have "nat_of_digits (digits_nat (n div 10)) = n div 10"
      using 1 by simp
    with False show ?thesis
      by (simp add: digits_nat.simps [of n] nat_of_digits_snoc digit_val_digit_char)
  qed
qed

lemma digits_ok_all_digits:
  "ds \<noteq> [] \<Longrightarrow> \<forall>c \<in> set ds. is_digit c \<Longrightarrow> digits_ok ds"
proof (induction ds rule: digits_ok.induct)
  case 1
  then show ?case by simp
next
  case (2 c)
  then show ?case by simp
next
  case (3 c d cs)
  then show ?case
    by (simp add: digit_not_underscore)
qed

lemma filter_underscore_digits:
  "\<forall>c \<in> set ds. is_digit c \<Longrightarrow> filter (\<lambda>c. c \<noteq> CHR ''_'') ds = ds"
  by (induction ds) (simp_all add: digit_not_underscore)

lemma parse_digits_digits_nat: "parse_digits (digits_nat n) = Some n"
  by (simp add: parse_digits_def digits_ok_all_digits digits_nat_nonempty
      digits_nat_all_digits filter_underscore_digits nat_of_digits_digits_nat)

lemma dropWhile_space_digits:
  "\<forall>c \<in> set ds. is_digit c \<Longrightarrow> dropWhile is_space ds = ds"
  by (cases ds) (simp_all add: digit_not_space)

lemma rstrip_space_digits:
  "\<forall>c \<in> set ds. is_digit c \<Longrightarrow> rstrip_with is_space (pre @ ds) = pre @ ds \<or> ds = []"
proof (cases ds rule: rev_cases)
  case Nil
  then show ?thesis by simp
next
  case (snoc ys y)
  assume "\<forall>c \<in> set ds. is_digit c"
  with snoc have "\<not> is_space y"
    by (simp add: digit_not_space)
  with snoc show ?thesis
    by (simp add: rstrip_with_def)
qed

lemma py_strip_str_int: "py_strip (str_int i) = str_int i"
proof (cases "i < 0")
  case True
  have "\<not> is_space CHR ''-''"
    by (simp add: is_space_def)
  then have "dropWhile is_space (CHR ''-'' # ds) = CHR ''-'' # ds" for ds
    by simp
  moreover have "rstrip_with is_space ([CHR ''-''] @ digits_nat (nat (- i))) =
      [CHR ''-''] @ digits_nat (nat (- i))"
    using rstrip_space_digits [OF digits_nat_all_digits, of "[CHR ''-'']" "nat (- i)"]
    by (simp add: digits_nat_nonempty)
  ultimately show ?thesis
    using True by (simp add: py_strip_def str_int_def)
next
  case False
  have "rstrip_with is_space ([] @ digits_nat (nat i)) = [] @ digits_nat (nat i)"
    using rstrip_space_digits [OF digits_nat_all_digits, of "[]" "nat i"]
    by (simp add: digits_nat_nonempty)
  then show ?thesis
    using False
    by (simp add: py_strip_def str_int_def dropWhile_space_digits digits_nat_all_digits)
qed

lemma read_int_str_int: "read_int (str_int i) = Some i"
proof (cases "i < 0")
  case True
  then have "py_strip (str_int i) = CHR ''-'' # digits_nat (nat (- i))"
    by (simp add: py_strip_str_int) (simp add: str_int_def)
  with True show ?thesis
    by (simp add: read_int_def parse_digits_digits_nat)
next
  case False
  obtain c cs where ds: "digits_nat (nat i) = c # cs"
    using digits_nat_nonempty [of "nat i"] by (cases "digits_nat (nat i)") auto
  have "is_digit c"
    using digits_nat_all_digits [of "nat i"] ds by simp
  then have c: "c \<noteq> CHR ''-''" "c \<noteq> CHR ''+''"
    using digit_not_sign by auto
  have "py_strip (str_int i) = c # cs"
    using False ds by (simp add: py_strip_str_int) (simp add: str_int_def)
  moreover have "parse_digits (c # cs) = Some (nat i)"
    using parse_digits_digits_nat [of "nat i"] ds by simp
  ultimately show ?thesis
    using False c by (simp add: read_int_def)
qed

lemma str_int_inj: "str_int i = str_int j \<Longrightarrow> i = j"
proof -
  assume "str_int i = str_int j"
  then have "read_int (str_int i) = read_int (str_int j)"
    by simp
  then show "i = j"
    by (simp add: read_int_str_int)
qed

lemma spec_parse_key_dest_key:
  "spec_parse_key p e (dest_key p (filename n e)) = Some n"
  by (simp add: spec_parse_key_def dest_key_def filename_def endswith_def Let_def
      read_int_str_int)

section \<open>Facts about the transfer loop\<close>

lemma for_loop_append:
  "for_loop body (xs @ ys) st =
     (case for_loop body xs st of
        Continue st1 \<Rightarrow> for_loop body ys st1
      | Break st1 \<Rightarrow> Break st1
      | Raise e st1 \<Rightarrow> Raise e st1)"
  by (induction xs arbitrary: st) (simp_all split: control.splits)

text \<open>The adapter hands back every response whose status is not in its retry list.\<close>

lemma adapter_response:
  "code \<notin> set status_forcelist \<Longrightarrow> adapter (Response code body err) = Response code body err"
  by (simp add: adapter_def)

lemma adapter_retry:
  "code \<in> set status_forcelist \<Longrightarrow> adapter (Response code body err) = Raised retry_error"
  by (simp add: adapter_def)

lemma adapter_raised: "adapter (Raised e) = Raised e"
  by (simp add: adapter_def)

lemma ok_not_retried: "200 \<notin> set status_forcelist" "201 \<notin> set status_forcelist"
  "404 \<notin> set status_forcelist"
  by (simp_all add: status_forcelist_def)

lemma requests_of_append [simp]:
  "requests_of (xs @ ys) = requests_of xs @ requests_of ys"
  by (induction xs rule: requests_of.induct) simp_all

lemma get_req_json_inj: "get_req_json a i = get_req_json a j \<Longrightarrow> i = j"
  by (simp add: get_req_json_def get_request_def ipfs_url_def filename_def str_int_inj)

lemma get_req_not_put: "get_req_json a i \<noteq> put_req a dp ext j"
  by (simp add: get_req_json_def get_request_def put_req_def put_request_def)

lemma put_req_inj: "put_req a dp ext i = put_req a dp ext j \<Longrightarrow> i = j"
  by (simp add: put_req_def put_request_def storage_url_def dest_key_def filename_def
      str_int_inj)

text \<open>The branches of the loop body, for any download function.\<close>

lemma body_skip:
  "n \<in> ex \<Longrightarrow>
   loop_body w a ext dp td dl ex n st =
     Continue (st\<lparr>skipped_count := skipped_count st + 1,
                  env := (if n mod 100 = 0 then emit (msg_skipped n) (env st) else env st)\<rparr>)"
  by (simp add: loop_body_def)

lemma body_miss:
  assumes "n \<notin> ex" and "dl n (td @ ''/'' @ filename n ext) (env st) = (Inr (False, code), s1)"
  shows "loop_body w a ext dp td dl ex n st =
     (let streak = consecutive_missing st + 1;
          s2 = (if n mod 25 = 0 then emit (msg_missing n code streak) s1 else s1)
      in if streak \<ge> max_missing a
         then Break (st\<lparr>consecutive_missing := streak, env := emit (msg_stopping n streak) s2\<rparr>)
         else Continue (st\<lparr>consecutive_missing := streak, env := s2\<rparr>))"
  using assms by (simp add: loop_body_def Let_def)

lemma body_hit:
  assumes "n \<notin> ex"
    and "dl n (td @ ''/'' @ filename n ext) (env st) = (Inr (True, code), s1)"
    and "td @ ''/'' @ filename n ext \<in> files s1"
    and "w (clock s1) (put_req a dp ext n) = Response up_code up_text err"
    and "up_code \<notin> set status_forcelist"
  shows "loop_body w a ext dp td dl ex n st =
     (let st1 = st\<lparr>consecutive_missing := 0, found_count := found_count st + 1\<rparr>;
          s2 = s1\<lparr>clock := Suc (clock s1),
                  trace := trace s1 @ [Http (put_req a dp ext n) (Response up_code up_text err)]\<rparr>
      in if up_code = 200 \<or> up_code = 201
         then Continue (st1\<lparr>uploaded_count := uploaded_count st + 1,
                env := (let s3 = emit (msg_uploaded n (dest_key dp (filename n ext))) s2
                        in if delete_local a then unlink (td @ ''/'' @ filename n ext) s3 else s3)\<rparr>)
         else Continue (st1\<lparr>errors_upload := errors_upload st + 1,
                env := emit (msg_upload_failed n up_code (take 200 up_text)) s2\<rparr>))"
  using assms
  by (simp add: loop_body_def Let_def bunny_put_def session_request_def put_req_def
      adapter_response)

text \<open>The JSON download in terms of what the world answers.\<close>

lemma download_json_miss:
  "w (clock s) (get_req_json a n) = Response code body err \<Longrightarrow> code \<noteq> 200 \<Longrightarrow>
   code \<notin> set status_forcelist \<Longrightarrow>
   download_call_json w a n out s =
     (Inr (False, code),
      s\<lparr>clock := Suc (clock s),
        trace := trace s @ [Http (get_req_json a n) (Response code body err)]\<rparr>)"
  by (simp add: download_call_json_def download_json_def session_request_def get_req_json_def
      adapter_response)

lemma download_json_hit:
  "w (clock s) (get_req_json a n) = Response 200 body None \<Longrightarrow>
   download_call_json w a n out s =
     (Inr (True, 200),
      write_file out (s\<lparr>clock := Suc (clock s),
        trace := trace s @ [Http (get_req_json a n) (Response 200 body None)]\<rparr>))"
  by (simp add: download_call_json_def download_json_def session_request_def get_req_json_def
      adapter_response ok_not_retried)

text \<open>Every request of the loop belongs to a candidate that was not skipped.\<close>

lemma body_requests_json:
  "set (requests_of (trace (env (state_of
      (loop_body w a ''json'' dp td (download_call_json w a) ex n st)))))
   \<subseteq> set (requests_of (trace (env st)))
       \<union> (if n \<in> ex then {} else {get_req_json a n, put_req a dp ''json'' n})"
  by (auto simp add: loop_body_def download_call_json_def download_json_def bunny_put_def
      session_request_def get_req_json_def put_req_def emit_def unlink_def write_file_def Let_def
      adapter_def split: http_result.splits option.splits if_splits)

lemma loop_requests_json:
  "set (requests_of (trace (env (state_of
      (for_loop (loop_body w a ''json'' dp td (download_call_json w a) ex) ns st)))))
   \<subseteq> set (requests_of (trace (env st)))
       \<union> (\<Union>n \<in> set ns - ex. {get_req_json a n, put_req a dp ''json'' n})"
proof (induction ns arbitrary: st)
  case Nil
  then show ?case by simp
next
  case (Cons n ns)
  let ?B = "loop_body w a ''json'' dp td (download_call_json w a) ex"
  have step: "set (requests_of (trace (env (state_of (?B n st)))))
      \<subseteq> set (requests_of (trace (env st)))
          \<union> (\<Union>n \<in> set (n # ns) - ex. {get_req_json a n, put_req a dp ''json'' n})"
    using body_requests_json [of w a dp td ex n st] by (auto split: if_splits)
  show ?case
  proof (cases "?B n st")
    case (Continue st1)
    have "set (requests_of (trace (env (state_of (for_loop ?B ns st1)))))
       \<subseteq> set (requests_of (trace (env st1)))
          \<union> (\<Union>n \<in> set ns - ex. {get_req_json a n, put_req a dp ''json'' n})"
      by (rule Cons.IH)
    with step Continue show ?thesis by auto
  next
    case (Break st1)
    with step show ?thesis by simp
  next
    case (Raise e st1)
    with step show ?thesis by simp
  qed
qed

text \<open>A candidate that is served and whose upload is answered.\<close>

lemma hit_step_json:
  assumes "n \<notin> ex" and "served w (get_req_json a n)"
    and "answered w (put_req a dp ''json'' n)"
  shows "\<exists>st'. loop_body w a ''json'' dp td (download_call_json w a) ex n st = Continue st'
      \<and> consecutive_missing st' = 0 \<and> found_count st' = found_count st + 1
      \<and> skipped_count st' = skipped_count st
      \<and> uploaded_count st' + errors_upload st' = uploaded_count st + errors_upload st + 1
      \<and> (accepted w (put_req a dp ''json'' n) \<longrightarrow> errors_upload st' = errors_upload st)"
proof -
  let ?out = "td @ ''/'' @ filename n ''json''"
  obtain body where g: "w (clock (env st)) (get_req_json a n) = Response 200 body None"
    using assms(2) unfolding served_def by blast
  define s1 where "s1 = write_file ?out ((env st)\<lparr>clock := Suc (clock (env st)),
        trace := trace (env st) @ [Http (get_req_json a n) (Response 200 body None)]\<rparr>)"
  have dl: "download_call_json w a n ?out (env st) = (Inr (True, 200), s1)"
    using g by (simp add: s1_def download_json_hit)
  have f: "?out \<in> files s1"
    by (simp add: s1_def write_file_def)
  obtain code up_text err where
    p: "w (clock s1) (put_req a dp ''json'' n) = Response code up_text err"
    and q: "code \<notin> set status_forcelist"
    using assms(3) unfolding answered_def by blast
  show ?thesis
  proof (cases "code = 200 \<or> code = 201")
    case True
    with assms(1) dl f p q show ?thesis
      by (simp add: body_hit Let_def)
  next
    case False
    with p have "\<not> accepted w (put_req a dp ''json'' n)"
      unfolding accepted_def by (metis http_result.inject)
    with False assms(1) dl f p q show ?thesis
      by (simp add: body_hit Let_def)
  qed
qed

lemma hits_run_json:
  assumes "\<forall>n \<in> set ns. n \<notin> ex \<and> served w (get_req_json a n)
      \<and> answered w (put_req a dp ''json'' n)"
  shows "\<exists>st'. for_loop (loop_body w a ''json'' dp td (download_call_json w a) ex) ns st
        = Continue st'
      \<and> found_count st' = found_count st + int (length ns)
      \<and> consecutive_missing st' = (if ns = [] then consecutive_missing st else 0)
      \<and> skipped_count st' = skipped_count st
      \<and> uploaded_count st' + errors_upload st'
          = uploaded_count st + errors_upload st + int (length ns)
      \<and> ((\<forall>n \<in> set ns. accepted w (put_req a dp ''json'' n))
           \<longrightarrow> errors_upload st' = errors_upload st)"
  using assms
proof (induction ns arbitrary: st rule: rev_induct)
  case Nil
  then show ?case by simp
next
  case (snoc n ns)
  let ?B = "loop_body w a ''json'' dp td (download_call_json w a) ex"
  have "\<forall>n \<in> set ns. n \<notin> ex \<and> served w (get_req_json a n)
      \<and> answered w (put_req a dp ''json'' n)"
    using snoc.prems by simp
  from snoc.IH [OF this, of st]
  obtain st1 where 1: "for_loop ?B ns st = Continue st1"
    "found_count st1 = found_count st + int (length ns)"
    "skipped_count st1 = skipped_count st"
    "uploaded_count st1 + errors_upload st1
       = uploaded_count st + errors_upload st + int (length ns)"
    "(\<forall>n \<in> set ns. accepted w (put_req a dp ''json'' n))
       \<longrightarrow> errors_upload st1 = errors_upload st"
    by blast
  from snoc.prems have "n \<notin> ex" "served w (get_req_json a n)"
    "answered w (put_req a dp ''json'' n)"
    by simp_all
  from hit_step_json [OF this, of td st1]
  obtain st2 where 2: "?B n st1 = Continue st2" "consecutive_missing st2 = 0"
    "found_count st2 = found_count st1 + 1" "skipped_count st2 = skipped_count st1"
    "uploaded_count st2 + errors_upload st2 = uploaded_count st1 + errors_upload st1 + 1"
    "accepted w (put_req a dp ''json'' n) \<longrightarrow> errors_upload st2 = errors_upload st1"
    by blast
  have "for_loop ?B (ns @ [n]) st = Continue st2"
    using 1(1) 2(1) by (simp add: for_loop_append)
  moreover have "(\<forall>m \<in> set (ns @ [n]). accepted w (put_req a dp ''json'' m))
      \<longrightarrow> errors_upload st2 = errors_upload st"
    using 1(5) 2(6) by simp
  ultimately show ?case
    using 1(2,3,4) 2(2,3,4,5) by simp
qed

text \<open>A candidate that is answered with a status other than 200.\<close>

lemma miss_step_json:
  assumes "n \<notin> ex" and "absent w (get_req_json a n)"
  shows "\<exists>st'. loop_body w a ''json'' dp td (download_call_json w a) ex n st =
        (if consecutive_missing st + 1 \<ge> max_missing a then Break st' else Continue st')
      \<and> consecutive_missing st' = consecutive_missing st + 1
      \<and> found_count st' = found_count st
      \<and> uploaded_count st' = uploaded_count st \<and> errors_upload st' = errors_upload st
      \<and> requests_of (trace (env st')) = requests_of (trace (env st)) @ [get_req_json a n]
      \<and> (consecutive_missing st + 1 \<ge> max_missing a \<longrightarrow>
           last (trace (env st')) = Print (msg_stopping n (consecutive_missing st + 1)))"
proof -
  obtain code body err where g:
    "w (clock (env st)) (get_req_json a n) = Response code body err" "code \<noteq> 200"
    "code \<notin> set status_forcelist"
    using assms(2) unfolding absent_def by blast
  have "download_call_json w a n (td @ ''/'' @ filename n ''json'') (env st) =
      (Inr (False, code), (env st)\<lparr>clock := Suc (clock (env st)),
         trace := trace (env st) @ [Http (get_req_json a n) (Response code body err)]\<rparr>)"
    using g by (simp add: download_json_miss)
  then show ?thesis
    using assms(1) by (simp add: body_miss Let_def emit_def)
qed

lemma misses_run_json:
  assumes "\<forall>n \<in> set ns. n \<notin> ex \<and> absent w (get_req_json a n)"
    and "consecutive_missing st + int (length ns) < max_missing a"
  shows "\<exists>st'. for_loop (loop_body w a ''json'' dp td (download_call_json w a) ex) ns st
        = Continue st'
      \<and> consecutive_missing st' = consecutive_missing st + int (length ns)
      \<and> found_count st' = found_count st
      \<and> uploaded_count st' = uploaded_count st \<and> errors_upload st' = errors_upload st"
  using assms
proof (induction ns arbitrary: st)
  case Nil
  then show ?case by simp
next
  case (Cons n ns)
  let ?B = "loop_body w a ''json'' dp td (download_call_json w a) ex"
  from Cons.prems have n: "n \<notin> ex" "absent w (get_req_json a n)"
    by simp_all
  from Cons.prems(2) have lt: "\<not> consecutive_missing st + 1 \<ge> max_missing a"
    by simp
  from miss_step_json [where dp = dp and td = td and st = st, OF n] lt
  obtain st1 where 1: "?B n st = Continue st1"
    "consecutive_missing st1 = consecutive_missing st + 1" "found_count st1 = found_count st"
    "uploaded_count st1 = uploaded_count st" "errors_upload st1 = errors_upload st"
    by auto
  have rest: "\<forall>n \<in> set ns. n \<notin> ex \<and> absent w (get_req_json a n)"
    using Cons.prems(1) by simp
  have "consecutive_missing st1 + int (length ns) < max_missing a"
    using Cons.prems(2) 1(2) by simp
  from Cons.IH [OF rest this]
  obtain st2 where 2: "for_loop ?B ns st1 = Continue st2"
    "consecutive_missing st2 = consecutive_missing st1 + int (length ns)"
    "found_count st2 = found_count st1"
    "uploaded_count st2 = uploaded_count st1" "errors_upload st2 = errors_upload st1"
    by blast
  show ?case using 1 2 by simp
qed

text \<open>
  A dense prefix followed by misses: the loop breaks at the id where the streak
  reaches the threshold.
\<close>

lemma stop_run_json:
  assumes "start \<le> k" and "1 \<le> max_missing a" and "k + max_missing a - 1 \<le> e"
    and hit: "\<forall>n. start \<le> n \<and> n < k \<longrightarrow> n \<notin> ex \<and> served w (get_req_json a n)
      \<and> answered w (put_req a dp ''json'' n)"
    and miss: "\<forall>n. k \<le> n \<and> n \<le> e \<longrightarrow> n \<notin> ex \<and> absent w (get_req_json a n)"
    and zero: "consecutive_missing st = 0"
  shows "\<exists>st'. for_loop (loop_body w a ''json'' dp td (download_call_json w a) ex) [start .. e] st
        = Break st'
      \<and> found_count st' = found_count st + (k - start)
      \<and> consecutive_missing st' = max_missing a
      \<and> uploaded_count st' + errors_upload st'
          = uploaded_count st + errors_upload st + (k - start)
      \<and> ((\<forall>n. start \<le> n \<and> n < k \<longrightarrow> accepted w (put_req a dp ''json'' n))
           \<longrightarrow> errors_upload st' = errors_upload st)
      \<and> last (requests_of (trace (env st'))) = get_req_json a (k + max_missing a - 1)
      \<and> requests_of (trace (env st')) \<noteq> []
      \<and> last (trace (env st')) = Print (msg_stopping (k + max_missing a - 1) (max_missing a))
      \<and> trace (env st') \<noteq> []
      \<and> set (requests_of (trace (env st'))) \<subseteq> set (requests_of (trace (env st)))
           \<union> (\<Union>n \<in> {start .. k + max_missing a - 1}. {get_req_json a n, put_req a dp ''json'' n})"
proof -
  let ?B = "loop_body w a ''json'' dp td (download_call_json w a) ex"
  define z where "z = k + max_missing a - 1"
  have zk: "k \<le> z" "z \<le> e"
    using assms(2,3) by (simp_all add: z_def)
  have split: "[start .. e] = ([start .. k - 1] @ [k .. z - 1] @ [z]) @ [z + 1 .. e]"
    using upto_split1 [of start k e] upto_split1 [of k z e] upto_rec1 [of z e] assms(1) zk
    by simp
  from hit have "\<forall>n \<in> set [start .. k - 1]. n \<notin> ex \<and> served w (get_req_json a n)
      \<and> answered w (put_req a dp ''json'' n)"
    by simp
  from hits_run_json [OF this, of td st]
  obtain st1 where 1: "for_loop ?B [start .. k - 1] st = Continue st1"
    "found_count st1 = found_count st + int (length [start .. k - 1])"
    "consecutive_missing st1 = (if [start .. k - 1] = [] then consecutive_missing st else 0)"
    "uploaded_count st1 + errors_upload st1
       = uploaded_count st + errors_upload st + int (length [start .. k - 1])"
    "(\<forall>n \<in> set [start .. k - 1]. accepted w (put_req a dp ''json'' n))
       \<longrightarrow> errors_upload st1 = errors_upload st"
    by blast
  have c1: "consecutive_missing st1 = 0"
    using 1(3) zero by (simp split: if_splits)
  from miss zk have m2: "\<forall>n \<in> set [k .. z - 1]. n \<notin> ex \<and> absent w (get_req_json a n)"
    by simp
  have "consecutive_missing st1 + int (length [k .. z - 1]) < max_missing a"
    using c1 assms(2) by (simp add: z_def)
  from misses_run_json [OF m2 this, of dp td]
  obtain st2 where 2: "for_loop ?B [k .. z - 1] st1 = Continue st2"
    "consecutive_missing st2 = consecutive_missing st1 + int (length [k .. z - 1])"
    "found_count st2 = found_count st1"
    "uploaded_count st2 = uploaded_count st1" "errors_upload st2 = errors_upload st1"
    by blast
  have c2: "consecutive_missing st2 + 1 = max_missing a"
    using 2(2) c1 assms(2) by (simp add: z_def)
  from miss zk have "z \<notin> ex" "absent w (get_req_json a z)"
    by simp_all
  from miss_step_json [where dp = dp and td = td and st = st2, OF this] c2
  obtain st3 where 3: "?B z st2 = Break st3"
    "consecutive_missing st3 = max_missing a" "found_count st3 = found_count st2"
    "uploaded_count st3 = uploaded_count st2" "errors_upload st3 = errors_upload st2"
    "requests_of (trace (env st3)) = requests_of (trace (env st2)) @ [get_req_json a z]"
    "last (trace (env st3)) = Print (msg_stopping z (max_missing a))"
    by auto
  have ne: "trace (env st3) \<noteq> []"
    using 3(6) by (cases "trace (env st3)") simp_all
  have pre: "for_loop ?B ([start .. k - 1] @ [k .. z - 1] @ [z]) st = Break st3"
    using 1(1) 2(1) 3(1) by (simp add: for_loop_append)
  then have whole: "for_loop ?B [start .. e] st = Break st3"
    by (simp only: split for_loop_append [of ?B _ "[z + 1 .. e]"] control.case)
  have "set ([start .. k - 1] @ [k .. z - 1] @ [z]) \<subseteq> {start .. z}"
    using assms(1) zk by auto
  with loop_requests_json [of w a dp td ex "[start .. k - 1] @ [k .. z - 1] @ [z]" st] pre
  have sub: "set (requests_of (trace (env st3))) \<subseteq> set (requests_of (trace (env st)))
           \<union> (\<Union>n \<in> {start .. z}. {get_req_json a n, put_req a dp ''json'' n})"
    by (simp only: state_of.simps) blast
  have cnt: "found_count st3 = found_count st + (k - start)"
    "uploaded_count st3 + errors_upload st3 = uploaded_count st + errors_upload st + (k - start)"
    using 1(2,4) 2(3,4,5) 3(3,4,5) assms(1) by simp_all
  have err: "(\<forall>n. start \<le> n \<and> n < k \<longrightarrow> accepted w (put_req a dp ''json'' n))
           \<longrightarrow> errors_upload st3 = errors_upload st"
    using 1(5) 2(5) 3(5) by simp
  from whole 3(2,6,7) ne sub cnt err show ?thesis
    by (simp add: z_def)
qed

section \<open>The loop for any download function\<close>

lemma hit_step:
  assumes "n \<notin> ex" and "fetched (dl n) (td @ ''/'' @ filename n ext)"
    and "answered w (put_req a dp ext n)"
  shows "\<exists>st'. loop_body w a ext dp td dl ex n st = Continue st'
      \<and> consecutive_missing st' = 0 \<and> found_count st' = found_count st + 1
      \<and> skipped_count st' = skipped_count st
      \<and> uploaded_count st' + errors_upload st' = uploaded_count st + errors_upload st + 1
      \<and> (accepted w (put_req a dp ext n) \<longrightarrow> errors_upload st' = errors_upload st)"
proof -
  let ?out = "td @ ''/'' @ filename n ext"
  obtain c s1 where dl: "dl n ?out (env st) = (Inr (True, c), s1)" and f: "?out \<in> files s1"
    using assms(2) unfolding fetched_def by blast
  obtain code up_text err where
    p: "w (clock s1) (put_req a dp ext n) = Response code up_text err"
    and q: "code \<notin> set status_forcelist"
    using assms(3) unfolding answered_def by blast
  show ?thesis
  proof (cases "code = 200 \<or> code = 201")
    case True
    with assms(1) dl f p q show ?thesis
      by (simp add: body_hit Let_def)
  next
    case False
    with p have "\<not> accepted w (put_req a dp ext n)"
      unfolding accepted_def by (metis http_result.inject)
    with False assms(1) dl f p q show ?thesis
      by (simp add: body_hit Let_def)
  qed
qed

lemma hits_run:
  assumes "\<forall>n \<in> set ns. n \<notin> ex \<and> fetched (dl n) (td @ ''/'' @ filename n ext)
      \<and> answered w (put_req a dp ext n)"
  shows "\<exists>st'. for_loop (loop_body w a ext dp td dl ex) ns st = Continue st'
      \<and> found_count st' = found_count st + int (length ns)
      \<and> consecutive_missing st' = (if ns = [] then consecutive_missing st else 0)
      \<and> skipped_count st' = skipped_count st
      \<and> uploaded_count st' + errors_upload st'
          = uploaded_count st + errors_upload st + int (length ns)
      \<and> ((\<forall>n \<in> set ns. accepted w (put_req a dp ext n))
           \<longrightarrow> errors_upload st' = errors_upload st)"
  using assms
proof (induction ns arbitrary: st rule: rev_induct)
  case Nil
  then show ?case by simp
next
  case (snoc n ns)
  let ?B = "loop_body w a ext dp td dl ex"
  have "\<forall>n \<in> set ns. n \<notin> ex \<and> fetched (dl n) (td @ ''/'' @ filename n ext)
      \<and> answered w (put_req a dp ext n)"
    using snoc.prems by simp
  from snoc.IH [of st] this
  obtain st1 where 1: "for_loop ?B ns st = Continue st1"
    "found_count st1 = found_count st + int (length ns)"
    "skipped_count st1 = skipped_count st"
    "uploaded_count st1 + errors_upload st1
       = uploaded_count st + errors_upload st + int (length ns)"
    "(\<forall>n \<in> set ns. accepted w (put_req a dp ext n))
       \<longrightarrow> errors_upload st1 = errors_upload st"
    by blast
  from snoc.prems have n: "n \<notin> ex" "fetched (dl n) (td @ ''/'' @ filename n ext)"
    "answered w (put_req a dp ext n)"
    by simp_all
  from hit_step [where dl = dl and n = n and td = td and ext = ext and ex = ex and w = w
      and a = a and dp = dp and st = st1] n
  obtain st2 where 2: "?B n st1 = Continue st2" "consecutive_missing st2 = 0"
    "found_count st2 = found_count st1 + 1" "skipped_count st2 = skipped_count st1"
    "uploaded_count st2 + errors_upload st2 = uploaded_count st1 + errors_upload st1 + 1"
    "accepted w (put_req a dp ext n) \<longrightarrow> errors_upload st2 = errors_upload st1"
    by blast
  have "for_loop ?B (ns @ [n]) st = Continue st2"
    using 1(1) 2(1) by (simp add: for_loop_append)
  moreover have "(\<forall>n \<in> set (ns @ [n]). accepted w (put_req a dp ext n))
       \<longrightarrow> errors_upload st2 = errors_upload st"
    using 1(5) 2(6) by simp
  ultimately show ?case
    using 1(2,3,4) 2(2,3,4,5) by simp
qed

lemma miss_step:
  assumes "n \<notin> ex" and "missed (dl n) (td @ ''/'' @ filename n ext)"
  shows "\<exists>st'. loop_body w a ext dp td dl ex n st =
        (if consecutive_missing st + 1 \<ge> max_missing a then Break st' else Continue st')
      \<and> consecutive_missing st' = consecutive_missing st + 1
      \<and> found_count st' = found_count st \<and> skipped_count st' = skipped_count st
      \<and> uploaded_count st' = uploaded_count st \<and> errors_upload st' = errors_upload st
      \<and> (consecutive_missing st + 1 \<ge> max_missing a \<longrightarrow>
           last (trace (env st')) = Print (msg_stopping n (consecutive_missing st + 1))
           \<and> trace (env st') \<noteq> [])"
proof -
  obtain code s1 where "dl n (td @ ''/'' @ filename n ext) (env st) = (Inr (False, code), s1)"
    using assms(2) unfolding missed_def by blast
  then show ?thesis
    using assms(1) by (simp add: body_miss Let_def emit_def)
qed

lemma misses_run:
  assumes "\<forall>n \<in> set ns. n \<notin> ex \<and> missed (dl n) (td @ ''/'' @ filename n ext)"
    and "consecutive_missing st + int (length ns) < max_missing a"
  shows "\<exists>st'. for_loop (loop_body w a ext dp td dl ex) ns st = Continue st'
      \<and> consecutive_missing st' = consecutive_missing st + int (length ns)
      \<and> found_count st' = found_count st \<and> skipped_count st' = skipped_count st
      \<and> uploaded_count st' = uploaded_count st \<and> errors_upload st' = errors_upload st"
  using assms
proof (induction ns arbitrary: st)
  case Nil
  then show ?case by simp
next
  case (Cons n ns)
  let ?B = "loop_body w a ext dp td dl ex"
  from Cons.prems have n: "n \<notin> ex" "missed (dl n) (td @ ''/'' @ filename n ext)"
    by simp_all
  from Cons.prems(2) have lt: "\<not> consecutive_missing st + 1 \<ge> max_missing a"
    by simp
  from miss_step [where dl = dl and n = n and td = td and ext = ext and ex = ex and w = w
      and a = a and dp = dp and st = st] n lt
  obtain st1 where 1: "?B n st = Continue st1"
    "consecutive_missing st1 = consecutive_missing st + 1" "found_count st1 = found_count st"
    "skipped_count st1 = skipped_count st"
    "uploaded_count st1 = uploaded_count st" "errors_upload st1 = errors_upload st"
    by auto
  have rest: "\<forall>n \<in> set ns. n \<notin> ex \<and> missed (dl n) (td @ ''/'' @ filename n ext)"
    using Cons.prems(1) by simp
  have "consecutive_missing st1 + int (length ns) < max_missing a"
    using Cons.prems(2) 1(2) by simp
  from Cons.IH [of st1] rest this
  obtain st2 where 2: "for_loop ?B ns st1 = Continue st2"
    "consecutive_missing st2 = consecutive_missing st1 + int (length ns)"
    "found_count st2 = found_count st1" "skipped_count st2 = skipped_count st1"
    "uploaded_count st2 = uploaded_count st1" "errors_upload st2 = errors_upload st1"
    by blast
  show ?case using 1 2 by simp
qed

lemma stop_run:
  assumes "start \<le> k" and "1 \<le> max_missing a" and "k + max_missing a - 1 \<le> e"
    and hit: "\<forall>n. start \<le> n \<and> n < k \<longrightarrow> n \<notin> ex
      \<and> fetched (dl n) (td @ ''/'' @ filename n ext) \<and> answered w (put_req a dp ext n)"
    and miss: "\<forall>n. k \<le> n \<and> n \<le> k + max_missing a - 1 \<longrightarrow> n \<notin> ex
      \<and> missed (dl n) (td @ ''/'' @ filename n ext)"
    and zero: "consecutive_missing st = 0"
  shows "\<exists>st'. for_loop (loop_body w a ext dp td dl ex) [start .. e] st = Break st'
      \<and> for_loop (loop_body w a ext dp td dl ex) [start .. k + max_missing a - 1] st = Break st'
      \<and> found_count st' = found_count st + (k - start)
      \<and> consecutive_missing st' = max_missing a
      \<and> skipped_count st' = skipped_count st
      \<and> uploaded_count st' + errors_upload st'
          = uploaded_count st + errors_upload st + (k - start)
      \<and> ((\<forall>n. start \<le> n \<and> n < k \<longrightarrow> accepted w (put_req a dp ext n))
           \<longrightarrow> errors_upload st' = errors_upload st)
      \<and> last (trace (env st')) = Print (msg_stopping (k + max_missing a - 1) (max_missing a))
      \<and> trace (env st') \<noteq> []"
proof -
  let ?B = "loop_body w a ext dp td dl ex"
  define z where "z = k + max_missing a - 1"
  have zk: "k \<le> z" "z \<le> e"
    using assms(2,3) by (simp_all add: z_def)
  have pre_eq: "[start .. z] = [start .. k - 1] @ [k .. z - 1] @ [z]"
    using upto_split1 [of start k z] upto_rec2 [of k z] assms(1) zk
    by simp
  have split: "[start .. e] = [start .. z] @ [z + 1 .. e]"
    using upto_split2 [of start z e] assms(1) zk by simp
  from hit have "\<forall>n \<in> set [start .. k - 1]. n \<notin> ex
      \<and> fetched (dl n) (td @ ''/'' @ filename n ext) \<and> answered w (put_req a dp ext n)"
    by simp
  from hits_run [where dl = dl and td = td and ext = ext and ex = ex and w = w
      and a = a and dp = dp and st = st and ns = "[start .. k - 1]"] this
  obtain st1 where 1: "for_loop ?B [start .. k - 1] st = Continue st1"
    "found_count st1 = found_count st + int (length [start .. k - 1])"
    "consecutive_missing st1 = (if [start .. k - 1] = [] then consecutive_missing st else 0)"
    "skipped_count st1 = skipped_count st"
    "uploaded_count st1 + errors_upload st1
       = uploaded_count st + errors_upload st + int (length [start .. k - 1])"
    "(\<forall>n \<in> set [start .. k - 1]. accepted w (put_req a dp ext n))
       \<longrightarrow> errors_upload st1 = errors_upload st"
    by blast
  have c1: "consecutive_missing st1 = 0"
    using 1(3) zero by (simp split: if_splits)
  from miss zk have m2: "\<forall>n \<in> set [k .. z - 1]. n \<notin> ex
      \<and> missed (dl n) (td @ ''/'' @ filename n ext)"
    by (simp add: z_def)
  have "consecutive_missing st1 + int (length [k .. z - 1]) < max_missing a"
    using c1 assms(2) by (simp add: z_def)
  from misses_run [where dl = dl and td = td and ext = ext and ex = ex and w = w
      and a = a and dp = dp and st = st1 and ns = "[k .. z - 1]"] m2 this
  obtain st2 where 2: "for_loop ?B [k .. z - 1] st1 = Continue st2"
    "consecutive_missing st2 = consecutive_missing st1 + int (length [k .. z - 1])"
    "found_count st2 = found_count st1" "skipped_count st2 = skipped_count st1"
    "uploaded_count st2 = uploaded_count st1" "errors_upload st2 = errors_upload st1"
    by blast
  have c2: "consecutive_missing st2 + 1 = max_missing a"
    using 2(2) c1 assms(2) by (simp add: z_def)
  from miss zk have "z \<notin> ex" "missed (dl z) (td @ ''/'' @ filename z ext)"
    by (simp_all add: z_def)
  from miss_step [where dl = dl and n = z and td = td and ext = ext and ex = ex and w = w
      and a = a and dp = dp and st = st2] this c2
  obtain st3 where 3: "?B z st2 = Break st3"
    "consecutive_missing st3 = max_missing a" "found_count st3 = found_count st2"
    "skipped_count st3 = skipped_count st2"
    "uploaded_count st3 = uploaded_count st2" "errors_upload st3 = errors_upload st2"
    "last (trace (env st3)) = Print (msg_stopping z (max_missing a))"
    "trace (env st3) \<noteq> []"
    by auto
  have pre: "for_loop ?B [start .. z] st = Break st3"
    using 1(1) 2(1) 3(1) by (simp add: pre_eq for_loop_append)
  then have whole: "for_loop ?B [start .. e] st = Break st3"
    by (simp only: split for_loop_append [of ?B _ "[z + 1 .. e]"] control.case)
  have cnt: "found_count st3 = found_count st + (k - start)"
    "uploaded_count st3 + errors_upload st3 = uploaded_count st + errors_upload st + (k - start)"
    "skipped_count st3 = skipped_count st"
    using 1(2,4,5) 2(3,4,5,6) 3(3,4,5,6) assms(1) by simp_all
  have err: "(\<forall>n. start \<le> n \<and> n < k \<longrightarrow> accepted w (put_req a dp ext n))
           \<longrightarrow> errors_upload st3 = errors_upload st"
    using 1(6) 2(6) 3(6) by simp
  from whole pre 3(2,7,8) cnt err show ?thesis
    unfolding z_def by blast
qed

section \<open>The consecutive-miss stop\<close>

lemma counter_after_pass:
  "consecutive_missing (state_of (loop_body w a ext dp td dl ex n st)) =
     (if n \<in> ex then consecutive_missing st
      else case dl n (td @ ''/'' @ filename n ext) (env st) of
             (Inl e, s1) \<Rightarrow> consecutive_missing st
           | (Inr (ok, code), s1) \<Rightarrow> if ok then 0 else consecutive_missing st + 1)"
  by (simp add: loop_body_def Let_def split: prod.splits sum.splits)

lemma finish_counters [simp]:
  "found_count (finish a td l st) = found_count st"
  "uploaded_count (finish a td l st) = uploaded_count st"
  "errors_upload (finish a td l st) = errors_upload st"
  "skipped_count (finish a td l st) = skipped_count st"
  "consecutive_missing (finish a td l st) = consecutive_missing st"
  by (simp_all add: finish_def Let_def)

lemma finish_trace:
  "trace (env (finish a td l st)) =
     trace (env st) @ [Print l,
       Print (if errors_upload st = 0 \<and> delete_local a then ''Local temp files deleted.''
              else ''Local files kept at: '' @ td)]"
  by (simp add: finish_def Let_def emit_def rmtree_def)

lemma msg_done_apes_finish [simp]:
  "msg_done_apes (finish a td l st) = msg_done_apes st"
  by (simp add: msg_done_apes_def)

lemma apes_dense_prefix:
  assumes "\<not> credentials_missing a" and "start_number a \<le> k" and "1 \<le> max_missing a"
    and "max_missing a < end_number a - k"
    and hit: "\<forall>n. start_number a \<le> n \<and> n < k \<longrightarrow> served w (get_req_json a n)
      \<and> answered w (put_req a (normalize_prefix (dest_path a)) ''json'' n)"
    and miss: "\<forall>n. k \<le> n \<and> n \<le> end_number a \<longrightarrow> absent w (get_req_json a n)"
  shows "\<exists>st. main_apes_json w a td = Completed st
      \<and> found_count st = k - start_number a
      \<and> consecutive_missing st = max_missing a
      \<and> uploaded_count st + errors_upload st = k - start_number a
      \<and> ((\<forall>n. start_number a \<le> n \<and> n < k
             \<longrightarrow> accepted w (put_req a (normalize_prefix (dest_path a)) ''json'' n))
           \<longrightarrow> errors_upload st = 0)
      \<and> halts_at a (Completed st) (k + max_missing a - 1)
      \<and> (\<forall>j. k + max_missing a - 1 < j \<longrightarrow> get_req_json a j \<notin> set (requests_of (trace (env st))))
      \<and> Print (msg_stopping (k + max_missing a - 1) (max_missing a)) \<in> set (trace (env st))
      \<and> Print (msg_done_apes st) \<in> set (trace (env st))"
proof -
  let ?dp = "normalize_prefix (dest_path a)"
  let ?z = "k + max_missing a - 1"
  have e: "?z \<le> end_number a"
    using assms(4) by simp
  from hit have hit': "\<forall>n. start_number a \<le> n \<and> n < k \<longrightarrow> n \<notin> {}
      \<and> served w (get_req_json a n) \<and> answered w (put_req a ?dp ''json'' n)"
    by simp
  from miss have miss': "\<forall>n. k \<le> n \<and> n \<le> end_number a \<longrightarrow> n \<notin> {}
      \<and> absent w (get_req_json a n)"
    by simp
  have z0: "consecutive_missing (state0 io0) = 0"
    by (simp add: state0_def)
  from stop_run_json [OF assms(2,3) e hit' miss' z0, of td]
  obtain st' where 1:
    "for_loop (loop_body w a ''json'' ?dp td (download_call_json w a) {})
        [start_number a .. end_number a] (state0 io0) = Break st'"
    "found_count st' = found_count (state0 io0) + (k - start_number a)"
    "consecutive_missing st' = max_missing a"
    "uploaded_count st' + errors_upload st'
       = uploaded_count (state0 io0) + errors_upload (state0 io0) + (k - start_number a)"
    "(\<forall>n. start_number a \<le> n \<and> n < k \<longrightarrow> accepted w (put_req a ?dp ''json'' n))
       \<longrightarrow> errors_upload st' = errors_upload (state0 io0)"
    "last (requests_of (trace (env st'))) = get_req_json a ?z"
    "requests_of (trace (env st')) \<noteq> []"
    "last (trace (env st')) = Print (msg_stopping ?z (max_missing a))"
    "trace (env st') \<noteq> []"
    "set (requests_of (trace (env st'))) \<subseteq> set (requests_of (trace (env (state0 io0))))
       \<union> (\<Union>n \<in> {start_number a .. ?z}. {get_req_json a n, put_req a ?dp ''json'' n})"
    by blast
  define st where "st = finish a td (msg_done_apes st') st'"
  have m: "main_apes_json w a td = Completed st"
    using assms(1) 1(1) by (simp add: main_apes_json_def Let_def st_def)
  have tr: "trace (env st) = trace (env st') @ [Print (msg_done_apes st'),
       Print (if errors_upload st' = 0 \<and> delete_local a then ''Local temp files deleted.''
              else ''Local files kept at: '' @ td)]"
    by (simp add: st_def finish_trace)
  have rq: "requests_of (trace (env st)) = requests_of (trace (env st'))"
    by (simp add: tr)
  have stop: "Print (msg_stopping ?z (max_missing a)) \<in> set (trace (env st))"
    using last_in_set [OF 1(9)] 1(8) by (simp add: tr)
  have later: "get_req_json a j \<notin> set (requests_of (trace (env st)))" if "?z < j" for j
  proof
    assume "get_req_json a j \<in> set (requests_of (trace (env st)))"
    with 1(10) rq obtain i where "i \<in> {start_number a .. ?z}"
      "get_req_json a j = get_req_json a i \<or> get_req_json a j = put_req a ?dp ''json'' i"
      by (auto simp add: state0_def io0_def)
    then have "j = i"
      using get_req_json_inj get_req_not_put by blast
    with \<open>i \<in> {start_number a .. ?z}\<close> that show False by simp
  qed
  have cnt: "found_count st = k - start_number a" "consecutive_missing st = max_missing a"
    "uploaded_count st + errors_upload st = k - start_number a"
    using 1(2,3,4) by (simp_all add: st_def state0_def)
  have err: "(\<forall>n. start_number a \<le> n \<and> n < k \<longrightarrow> accepted w (put_req a ?dp ''json'' n))
       \<longrightarrow> errors_upload st = 0"
    using 1(5) by (simp add: st_def state0_def)
  have halt: "halts_at a (Completed st) ?z"
    using 1(6,7) stop cnt(2) by (simp add: halts_at_def rq)
  have "msg_done_apes st = msg_done_apes st'"
    by (simp add: st_def)
  then have done_line: "Print (msg_done_apes st) \<in> set (trace (env st))"
    by (simp add: tr)
  from m cnt err halt later stop done_line show ?thesis
    by blast
qed


lemma get_req_mem_image:
  "get_req_json a n \<in> get_req_json a ` S \<longleftrightarrow> n \<in> S"
  using get_req_json_inj by blast

lemma meth_get_req [simp]: "meth (get_req_json a n) = GET"
  by (simp add: get_req_json_def get_request_def)

lemma meth_put_req [simp]: "meth (put_req a dp ext n) = PUT"
  by (simp add: put_req_def put_request_def)

lemma dense_prefix_world_served:
  "start_number a \<le> n \<Longrightarrow> n < k \<Longrightarrow> served (dense_prefix_world a k) (get_req_json a n)"
  by (simp add: served_def dense_prefix_world_def get_req_mem_image)

lemma dense_prefix_world_absent:
  "k \<le> n \<Longrightarrow> absent (dense_prefix_world a k) (get_req_json a n)"
  by (simp add: absent_def dense_prefix_world_def get_req_mem_image ok_not_retried)

lemma dense_prefix_world_accepted:
  "accepted (dense_prefix_world a k) (put_req a dp ext n)"
  by (simp add: accepted_def dense_prefix_world_def)

lemma accepted_answered: "accepted w r \<Longrightarrow> answered w r"
  unfolding accepted_def answered_def using ok_not_retried by metis

lemma dense_prefix_scenario:
  "\<exists>st. main_apes_json (dense_prefix_world apes_defaults 501) apes_defaults sample_tempdir
        = Completed st
      \<and> halts_at apes_defaults (Completed st) 575
      \<and> found_count st = 500
      \<and> Print ''Stopping at n=575: reached 75 consecutive misses.'' \<in> set (trace (env st))
      \<and> Print ''Done. Found: 500, Uploaded: 500, Upload errors: 0'' \<in> set (trace (env st))"
proof -
  let ?a = apes_defaults
  let ?w = "dense_prefix_world ?a 501"
  have a: "\<not> credentials_missing ?a" "start_number ?a \<le> 501" "1 \<le> max_missing ?a"
    "max_missing ?a < end_number ?a - 501"
    by (simp_all add: apes_defaults_def credentials_missing_def)
  have hit: "\<forall>n. start_number ?a \<le> n \<and> n < 501 \<longrightarrow> served ?w (get_req_json ?a n)
      \<and> answered ?w (put_req ?a (normalize_prefix (dest_path ?a)) ''json'' n)"
    by (simp add: dense_prefix_world_served dense_prefix_world_accepted accepted_answered)
  have miss: "\<forall>n. 501 \<le> n \<and> n \<le> end_number ?a \<longrightarrow> absent ?w (get_req_json ?a n)"
    by (simp add: dense_prefix_world_absent)
  from apes_dense_prefix [OF a hit miss, of sample_tempdir]
  obtain st where 1: "main_apes_json ?w ?a sample_tempdir = Completed st"
    "found_count st = 501 - start_number ?a"
    "consecutive_missing st = max_missing ?a"
    "uploaded_count st + errors_upload st = 501 - start_number ?a"
    "(\<forall>n. start_number ?a \<le> n \<and> n < 501
         \<longrightarrow> accepted ?w (put_req ?a (normalize_prefix (dest_path ?a)) ''json'' n))
       \<longrightarrow> errors_upload st = 0"
    "halts_at ?a (Completed st) (501 + max_missing ?a - 1)"
    "Print (msg_stopping (501 + max_missing ?a - 1) (max_missing ?a)) \<in> set (trace (env st))"
    "Print (msg_done_apes st) \<in> set (trace (env st))"
    by blast
  have c: "found_count st = 500" "errors_upload st = 0" "uploaded_count st = 500"
    using 1(2,4,5) by (simp_all add: apes_defaults_def dense_prefix_world_accepted)
  have s: "str_int 575 = ''575''" "str_int 75 = ''75''" "str_int 500 = ''500''" "str_int 0 = ''0''"
    by code_simp+
  have "msg_stopping 575 75 = ''Stopping at n=575: reached 75 consecutive misses.''"
    by (simp add: msg_stopping_def s)
  moreover have "msg_done_apes st = ''Done. Found: 500, Uploaded: 500, Upload errors: 0''"
    by (simp add: msg_done_apes_def c s)
  moreover have "501 + max_missing ?a - 1 = 575" "max_missing ?a = 75"
    by (simp_all add: apes_defaults_def)
  ultimately show ?thesis
    using 1(1,6,7,8) c(1) by simp
qed

text \<open>
  C1 (as amended).  One pass through the loop body leaves the consecutive-miss counter
  unchanged for a skipped id, adds one for a miss and sets it to zero for a hit.  If, in
  \<^verbatim>\<open>ipfs-to-cdn-apes-json.py\<close>, the ids of the range below \<open>k\<close> are served and their uploads
  are answered, the ids from \<open>k\<close> on are answered with a status other than 200, the range
  starts at or below \<open>k\<close>, and \<open>1 \<le> max_missing < end - k\<close>, then the run halts at id
  \<open>k + max_missing - 1\<close>, sends no request for a later id and ends with
  \<open>found = k - start\<close>.  With ids 1 to 500 present, 501 to 10000 absent and the threshold
  75 the run halts at id 575, the stop line names 575 and the summary reports
  \<open>Found: 500\<close>.
\<close>

theorem consecutive_miss_stop:
  "(\<not> credentials_missing a \<and> start_number a \<le> k \<and> 1 \<le> max_missing a
      \<and> max_missing a < end_number a - k
      \<and> (\<forall>n. start_number a \<le> n \<and> n < k \<longrightarrow> served w (get_req_json a n)
             \<and> answered w (put_req a (normalize_prefix (dest_path a)) ''json'' n))
      \<and> (\<forall>n. k \<le> n \<and> n \<le> end_number a \<longrightarrow> absent w (get_req_json a n))
    \<longrightarrow> halts_at a (main_apes_json w a td) (k + max_missing a - 1)
        \<and> (\<forall>j. k + max_missing a - 1 < j
              \<longrightarrow> get_req_json a j \<notin> set (requests_of (outcome_trace (main_apes_json w a td))))
        \<and> (\<exists>st. main_apes_json w a td = Completed st \<and> found_count st = k - start_number a))
   \<and> consecutive_missing (state_of (loop_body w a ext dp td dl ex n st)) =
        (if n \<in> ex then consecutive_missing st
         else case dl n (td @ ''/'' @ filename n ext) (env st) of
                (Inl e, s1) \<Rightarrow> consecutive_missing st
              | (Inr (ok, code), s1) \<Rightarrow> if ok then 0 else consecutive_missing st + 1)
   \<and> (\<exists>st. main_apes_json (dense_prefix_world apes_defaults 501) apes_defaults sample_tempdir
              = Completed st
         \<and> halts_at apes_defaults (Completed st) 575
         \<and> found_count st = 500
         \<and> Print ''Stopping at n=575: reached 75 consecutive misses.'' \<in> set (trace (env st))
         \<and> Print ''Done. Found: 500, Uploaded: 500, Upload errors: 0'' \<in> set (trace (env st)))"
proof (intro conjI impI)
  assume h: "\<not> credentials_missing a \<and> start_number a \<le> k \<and> 1 \<le> max_missing a
      \<and> max_missing a < end_number a - k
      \<and> (\<forall>n. start_number a \<le> n \<and> n < k \<longrightarrow> served w (get_req_json a n)
             \<and> answered w (put_req a (normalize_prefix (dest_path a)) ''json'' n))
      \<and> (\<forall>n. k \<le> n \<and> n \<le> end_number a \<longrightarrow> absent w (get_req_json a n))"
  then have "\<not> credentials_missing a" "start_number a \<le> k" "1 \<le> max_missing a"
    "max_missing a < end_number a - k"
    "\<forall>n. start_number a \<le> n \<and> n < k \<longrightarrow> served w (get_req_json a n)
       \<and> answered w (put_req a (normalize_prefix (dest_path a)) ''json'' n)"
    "\<forall>n. k \<le> n \<and> n \<le> end_number a \<longrightarrow> absent w (get_req_json a n)"
    by blast+
  from apes_dense_prefix [OF this, of td]
  obtain st where 1: "main_apes_json w a td = Completed st"
    "found_count st = k - start_number a"
    "halts_at a (Completed st) (k + max_missing a - 1)"
    "\<forall>j. k + max_missing a - 1 < j \<longrightarrow> get_req_json a j \<notin> set (requests_of (trace (env st)))"
    by blast
  show "halts_at a (main_apes_json w a td) (k + max_missing a - 1)"
    using 1(1,3) by simp
  show "\<forall>j. k + max_missing a - 1 < j
      \<longrightarrow> get_req_json a j \<notin> set (requests_of (outcome_trace (main_apes_json w a td)))"
    using 1(1,4) by simp
  show "\<exists>st. main_apes_json w a td = Completed st \<and> found_count st = k - start_number a"
    using 1(1,2) by simp
next
  show "consecutive_missing (state_of (loop_body w a ext dp td dl ex n st)) =
        (if n \<in> ex then consecutive_missing st
         else case dl n (td @ ''/'' @ filename n ext) (env st) of
                (Inl e, s1) \<Rightarrow> consecutive_missing st
              | (Inr (ok, code), s1) \<Rightarrow> if ok then 0 else consecutive_missing st + 1)"
    by (rule counter_after_pass)
next
  show "\<exists>st. main_apes_json (dense_prefix_world apes_defaults 501) apes_defaults sample_tempdir
              = Completed st
         \<and> halts_at apes_defaults (Completed st) 575
         \<and> found_count st = 500
         \<and> Print ''Stopping at n=575: reached 75 consecutive misses.'' \<in> set (trace (env st))
         \<and> Print ''Done. Found: 500, Uploaded: 500, Upload errors: 0'' \<in> set (trace (env st))"
    by (rule dense_prefix_scenario)
qed

text \<open>
  The theorem at a small range: ids 1 and 2 present, 3 to 20 absent, threshold 2; the
  run halts at id 4.
\<close>

theorem consecutive_miss_stop_witness:
  "\<not> credentials_missing (apes_defaults\<lparr>end_number := 20, max_missing := 2\<rparr>)
   \<and> start_number (apes_defaults\<lparr>end_number := 20, max_missing := 2\<rparr>) \<le> 3
   \<and> 1 \<le> max_missing (apes_defaults\<lparr>end_number := 20, max_missing := 2\<rparr>)
   \<and> max_missing (apes_defaults\<lparr>end_number := 20, max_missing := 2\<rparr>)
        < end_number (apes_defaults\<lparr>end_number := 20, max_missing := 2\<rparr>) - 3
   \<and> halts_at (apes_defaults\<lparr>end_number := 20, max_missing := 2\<rparr>)
        (main_apes_json
           (dense_prefix_world (apes_defaults\<lparr>end_number := 20, max_missing := 2\<rparr>) 3)
           (apes_defaults\<lparr>end_number := 20, max_missing := 2\<rparr>) sample_tempdir) 4"
proof -
  let ?a = "apes_defaults\<lparr>end_number := 20, max_missing := 2\<rparr>"
  let ?w = "dense_prefix_world ?a 3"
  have a: "\<not> credentials_missing ?a \<and> start_number ?a \<le> 3 \<and> 1 \<le> max_missing ?a
      \<and> max_missing ?a < end_number ?a - 3"
    by (simp add: apes_defaults_def credentials_missing_def)
  have hit: "\<forall>n. start_number ?a \<le> n \<and> n < 3 \<longrightarrow> served ?w (get_req_json ?a n)
      \<and> answered ?w (put_req ?a (normalize_prefix (dest_path ?a)) ''json'' n)"
    by (simp add: dense_prefix_world_served dense_prefix_world_accepted accepted_answered)
  have miss: "\<forall>n. 3 \<le> n \<and> n \<le> end_number ?a \<longrightarrow> absent ?w (get_req_json ?a n)"
    by (simp add: dense_prefix_world_absent)
  have "halts_at ?a (main_apes_json ?w ?a sample_tempdir) (3 + max_missing ?a - 1)"
    using consecutive_miss_stop [where a = ?a and k = 3 and w = ?w and td = sample_tempdir]
      a hit miss by blast
  moreover have "3 + max_missing ?a - 1 = 4"
    by (simp add: apes_defaults_def)
  ultimately show ?thesis
    using a by simp
qed

text \<open>
  The claim as first stated allows a threshold of zero.  With the range 1 to 10, every
  id absent (so \<open>k = 1\<close>) and \<open>max_missing = 0 < 10 - 1\<close>, the run halts at id 1, at the
  first miss, and not at id \<open>k + max_missing - 1 = 0\<close>.
\<close>

theorem consecutive_miss_stop_counterexample:
  "max_missing (apes_defaults\<lparr>end_number := 10, max_missing := 0\<rparr>)
     < end_number (apes_defaults\<lparr>end_number := 10, max_missing := 0\<rparr>) - 1
   \<and> halts_at (apes_defaults\<lparr>end_number := 10, max_missing := 0\<rparr>)
     (main_apes_json absent_world (apes_defaults\<lparr>end_number := 10, max_missing := 0\<rparr>)
        sample_tempdir) 1
   \<and> \<not> halts_at (apes_defaults\<lparr>end_number := 10, max_missing := 0\<rparr>)
     (main_apes_json absent_world (apes_defaults\<lparr>end_number := 10, max_missing := 0\<rparr>)
        sample_tempdir)
     (1 + max_missing (apes_defaults\<lparr>end_number := 10, max_missing := 0\<rparr>) - 1)"
  by code_simp

section \<open>The existence check\<close>

lemma check_json_result:
  "check_file_exists_on_cdn_json w sz ak rh dkey s =
     ((case w (clock s) (head_request_json sz ak rh dkey) of
         Response code body err \<Rightarrow> code = 200
       | Raised e \<Rightarrow> False),
      s\<lparr>clock := Suc (clock s),
        trace := trace s @ [Http (head_request_json sz ak rh dkey)
                              (w (clock s) (head_request_json sz ak rh dkey))]\<rparr>)"
  by (cases "w (clock s) (head_request_json sz ak rh dkey)")
    (simp_all add: check_file_exists_on_cdn_json_def session_request_def adapter_def
      status_forcelist_def)

lemma check_png_result:
  "check_file_exists_on_cdn_png w sz ak rh dkey s =
     ((case w (clock s) (head_request_png dkey) of
         Response code body err \<Rightarrow> code = 200
       | Raised e \<Rightarrow> False),
      s\<lparr>clock := Suc (clock s),
        trace := trace s @ [Http (head_request_png dkey) (w (clock s) (head_request_png dkey))]\<rparr>)"
  by (cases "w (clock s) (head_request_png dkey)")
    (simp_all add: check_file_exists_on_cdn_png_def session_request_def adapter_def
      status_forcelist_def)

lemma check_png_same:
  "check_file_exists_on_cdn_png w sz1 ak1 rh1 = check_file_exists_on_cdn_png w sz2 ak2 rh2"
  by (intro ext) (simp add: check_file_exists_on_cdn_png_def)

text \<open>
  C8.  The existence check of \<^verbatim>\<open>ipfs-to-cdn-hogs-json.py\<close> always returns a truth value:
  for every outcome of the HEAD request the answer is \<open>True\<close> exactly when a response
  with status 200 came back, and \<open>False\<close> for every exception.  With a destination that
  times out on every request, the scan of ids 1 to 3 sends its three requests and
  returns the empty set.
\<close>

theorem existence_check_best_effort:
  "fst (check_file_exists_on_cdn_json w sz ak rh dkey s) =
     (case w (clock s) (head_request_json sz ak rh dkey) of
        Response code body err \<Rightarrow> code = 200
      | Raised e \<Rightarrow> False)
   \<and> fst (check_file_exists_on_cdn_json (\<lambda>t r. Raised e) sz ak rh dkey s) = False
   \<and> fst (get_existing_files_on_cdn_json timeout_world ''zone'' ''key'' None ''hog_jsons/'' 1 3 io0)
       = {}
   \<and> length (requests_of (trace (snd
        (get_existing_files_on_cdn_json timeout_world ''zone'' ''key'' None ''hog_jsons/'' 1 3 io0))))
       = 3"
proof -
  have "fst (get_existing_files_on_cdn_json timeout_world ''zone'' ''key'' None ''hog_jsons/'' 1 3 io0)
       = {}"
    by code_simp
  moreover have "length (requests_of (trace (snd
        (get_existing_files_on_cdn_json timeout_world ''zone'' ''key'' None ''hog_jsons/'' 1 3 io0))))
       = 3"
    by code_simp
  ultimately show ?thesis
    by (simp add: check_json_result)
qed

text \<open>
  C9.  In \<^verbatim>\<open>ipfs-to-cdn-hogs.py\<close> the existence check sends a HEAD request to
  \<^verbatim>\<open>https://baysed.b-cdn.net/{dest_key}\<close> with no headers of its own, whatever storage
  zone, access key and region host are configured: two checks, and two scans of a
  range, that differ only in these three parameters send the same requests and return
  the same result.  The upload goes to the configured storage host.
\<close>

theorem existence_check_png_fixed_host:
  "check_file_exists_on_cdn_png w sz1 ak1 rh1 dkey s
     = check_file_exists_on_cdn_png w sz2 ak2 rh2 dkey s
   \<and> get_existing_files_on_cdn_png w sz1 ak1 rh1 dp start_num end_num s
     = get_existing_files_on_cdn_png w sz2 ak2 rh2 dp start_num end_num s
   \<and> trace (snd (check_file_exists_on_cdn_png w sz1 ak1 rh1 dkey s))
     = trace s @ [Http \<lparr>meth = HEAD, url = ''https://baysed.b-cdn.net/'' @ dkey,
                         headers = [], timeout = 10\<rparr>
                    (w (clock s) \<lparr>meth = HEAD, url = ''https://baysed.b-cdn.net/'' @ dkey,
                                   headers = [], timeout = 10\<rparr>)]
   \<and> url (put_request ''zone'' ''key'' (Some ''la.storage.bunnycdn.com'') ''hog_images/1.png'')
     = ''https://la.storage.bunnycdn.com/zone/hog_images/1.png''"
proof -
  have "url (put_request ''zone'' ''key'' (Some ''la.storage.bunnycdn.com'') ''hog_images/1.png'')
     = ''https://la.storage.bunnycdn.com/zone/hog_images/1.png''"
    by code_simp
  moreover have "get_existing_files_on_cdn_png w sz1 ak1 rh1 dp start_num end_num s
     = get_existing_files_on_cdn_png w sz2 ak2 rh2 dp start_num end_num s"
    by (simp add: get_existing_files_on_cdn_png_def check_png_same [of w sz1 ak1 rh1 sz2 ak2 rh2])
  ultimately show ?thesis
    by (simp add: check_png_result head_request_png_def)
qed

section \<open>The multi-gateway download\<close>

lemma sleeps_of_append [simp]: "sleeps_of (xs @ ys) = sleeps_of xs @ sleeps_of ys"
  by (induction xs rule: sleeps_of.induct) simp_all

text \<open>What one request to a gateway does.\<close>

lemma try_gateways_step:
  "(\<exists>s1 ev. try_gateways w (g # gs) c f out tmo s = try_gateways w gs c f out tmo s1
        \<and> trace s1 = trace s @ [ev] \<and> \<not> is_404 ev \<and> sleeps_of [ev] = [])
   \<or> (\<exists>s1 ev. try_gateways w (g # gs) c f out tmo s = (Some (False, 404), s1)
        \<and> trace s1 = trace s @ [ev] \<and> is_404 ev \<and> sleeps_of [ev] = [])
   \<or> (\<exists>s1 ev. try_gateways w (g # gs) c f out tmo s = (Some (True, 200), s1)
        \<and> trace s1 = trace s @ [ev] \<and> \<not> is_404 ev \<and> sleeps_of [ev] = [])"
proof -
  let ?r = "get_request (ipfs_url g c f) tmo"
  let ?ev = "Http ?r (w (clock s) ?r)"
  let ?s1 = "s\<lparr>clock := Suc (clock s), trace := trace s @ [?ev]\<rparr>"
  have t: "trace ?s1 = trace s @ [?ev]" "trace (write_file out ?s1) = trace s @ [?ev]"
    "sleeps_of [?ev] = []"
    by (simp_all add: write_file_def)
  show ?thesis
  proof (cases "w (clock s) ?r")
    case (Raised e)
    then have "try_gateways w (g # gs) c f out tmo s = try_gateways w gs c f out tmo ?s1"
      "\<not> is_404 ?ev"
      by (simp_all add: session_request_def adapter_raised)
    with t show ?thesis by blast
  next
    case (Response code body err)
    consider "code = 200" "err = None" | e where "code = 200" "err = Some e"
      | "code = 404" | "code \<noteq> 200" "code \<noteq> 404" "code \<in> set status_forcelist"
      | "code \<noteq> 200" "code \<noteq> 404" "code \<notin> set status_forcelist"
      by (cases err) auto
    then show ?thesis
    proof cases
      case 1
      with Response have
        "try_gateways w (g # gs) c f out tmo s = (Some (True, 200), write_file out ?s1)"
        "\<not> is_404 ?ev"
        by (simp_all add: session_request_def adapter_response ok_not_retried)
      with t show ?thesis by blast
    next
      case 2
      with Response have
        "try_gateways w (g # gs) c f out tmo s
           = try_gateways w gs c f out tmo (write_file out ?s1)"
        "\<not> is_404 ?ev"
        by (simp_all add: session_request_def adapter_response ok_not_retried)
      with t show ?thesis by blast
    next
      case 3
      with Response have
        "try_gateways w (g # gs) c f out tmo s = (Some (False, 404), ?s1)" "is_404 ?ev"
        by (simp_all add: session_request_def adapter_response ok_not_retried)
      with t show ?thesis by blast
    next
      case 4
      with Response have
        "try_gateways w (g # gs) c f out tmo s = try_gateways w gs c f out tmo ?s1"
        "\<not> is_404 ?ev"
        by (simp_all add: session_request_def adapter_retry)
      with t show ?thesis by blast
    next
      case 5
      with Response have
        "try_gateways w (g # gs) c f out tmo s = try_gateways w gs c f out tmo ?s1"
        "\<not> is_404 ?ev"
        by (simp_all add: session_request_def adapter_response)
      with t show ?thesis by blast
    qed
  qed
qed

text \<open>What one round over the gateways adds to the trace.\<close>

lemma try_gateways_events:
  "\<exists>evs. trace (snd (try_gateways w gs c f out tmo s)) = trace s @ evs
     \<and> sleeps_of evs = []
     \<and> (case fst (try_gateways w gs c f out tmo s) of
          None \<Rightarrow> \<not> list_ex is_404 evs
        | Some r \<Rightarrow>
            (r = (False, 404) \<and> evs \<noteq> [] \<and> is_404 (last evs) \<and> \<not> list_ex is_404 (butlast evs))
            \<or> (r = (True, 200) \<and> \<not> list_ex is_404 evs))"
proof (induction gs arbitrary: s)
  case Nil
  then show ?case by simp
next
  case (Cons g gs)
  from try_gateways_step [of w g gs c f out tmo s]
  consider
    (next_gateway) s1 ev where
      "try_gateways w (g # gs) c f out tmo s = try_gateways w gs c f out tmo s1"
      "trace s1 = trace s @ [ev]" "\<not> is_404 ev" "sleeps_of [ev] = []"
  | (not_found) s1 ev where
      "try_gateways w (g # gs) c f out tmo s = (Some (False, 404), s1)"
      "trace s1 = trace s @ [ev]" "is_404 ev" "sleeps_of [ev] = []"
  | (found) s1 ev where
      "try_gateways w (g # gs) c f out tmo s = (Some (True, 200), s1)"
      "trace s1 = trace s @ [ev]" "\<not> is_404 ev" "sleeps_of [ev] = []"
    by blast
  then show ?case
  proof cases
    case next_gateway
    from Cons.IH [of s1] obtain evs where
      1: "trace (snd (try_gateways w gs c f out tmo s1)) = trace s1 @ evs"
      "sleeps_of evs = []"
      "case fst (try_gateways w gs c f out tmo s1) of
          None \<Rightarrow> \<not> list_ex is_404 evs
        | Some r \<Rightarrow>
            (r = (False, 404) \<and> evs \<noteq> [] \<and> is_404 (last evs) \<and> \<not> list_ex is_404 (butlast evs))
            \<or> (r = (True, 200) \<and> \<not> list_ex is_404 evs)"
      by blast
    let ?evs = "ev # evs"
    have "trace (snd (try_gateways w (g # gs) c f out tmo s)) = trace s @ ?evs"
      using 1(1) next_gateway(1,2) by (simp del: try_gateways.simps)
    moreover have "sleeps_of ?evs = []"
      using 1(2) next_gateway(4) sleeps_of_append [of "[ev]" evs] by simp
    moreover have "case fst (try_gateways w (g # gs) c f out tmo s) of
          None \<Rightarrow> \<not> list_ex is_404 ?evs
        | Some r \<Rightarrow>
            (r = (False, 404) \<and> ?evs \<noteq> [] \<and> is_404 (last ?evs)
               \<and> \<not> list_ex is_404 (butlast ?evs))
            \<or> (r = (True, 200) \<and> \<not> list_ex is_404 ?evs)"
      using 1(3) next_gateway(3)
      by (auto simp add: next_gateway(1) simp del: try_gateways.simps split: option.splits)
    ultimately show ?thesis by blast
  next
    case not_found
    then show ?thesis
      by (intro exI [of _ "[ev]"]) (simp del: try_gateways.simps)
  next
    case found
    then show ?thesis
      by (intro exI [of _ "[ev]"]) (simp del: try_gateways.simps)
  qed
qed

text \<open>
  What the whole download adds to the trace: a 404 exchange can only be its last event,
  and it is the last event exactly when the download returns \<open>(False, 404)\<close>.
\<close>

lemma list_ex_butlast: "\<not> list_ex P xs \<Longrightarrow> \<not> list_ex P (butlast xs)"
  by (auto simp add: list_ex_iff dest: in_set_butlastD)

lemma download_attempts_events:
  "\<exists>evs. trace (snd (download_attempts w gws c f out tmo mr rd as s)) = trace s @ evs
     \<and> ((fst (download_attempts w gws c f out tmo mr rd as s) = Inr (False, 404)
            \<and> evs \<noteq> [] \<and> is_404 (last evs) \<and> \<not> list_ex is_404 (butlast evs))
         \<or> (fst (download_attempts w gws c f out tmo mr rd as s) \<noteq> Inr (False, 404)
             \<and> \<not> list_ex is_404 evs))"
proof (induction as arbitrary: s)
  case Nil
  then show ?case by simp
next
  case (Cons a as)
  obtain res s1 where tg: "try_gateways w gws c f out tmo s = (res, s1)"
    by (cases "try_gateways w gws c f out tmo s")
  from try_gateways_events [of w gws c f out tmo s] tg
  obtain evs1 where 1: "trace s1 = trace s @ evs1"
    "case res of
       None \<Rightarrow> \<not> list_ex is_404 evs1
     | Some r \<Rightarrow>
         (r = (False, 404) \<and> evs1 \<noteq> [] \<and> is_404 (last evs1) \<and> \<not> list_ex is_404 (butlast evs1))
         \<or> (r = (True, 200) \<and> \<not> list_ex is_404 evs1)"
    by auto
  show ?case
  proof (cases res)
    case (Some r)
    then have "download_attempts w gws c f out tmo mr rd (a # as) s = (Inr r, s1)"
      using tg by simp
    with 1 Some show ?thesis
      by (intro exI [of _ evs1]) auto
  next
    case None
    show ?thesis
    proof (cases "int a < mr - 1 \<and> (rd * 2 ^ a < 0 \<or> sleep_max < rd * 2 ^ a)")
      case True
      then have "\<exists>e. sleep (rd * 2 ^ a) s1 = Inl e"
        by (auto simp add: sleep_def)
      then obtain e where "sleep (rd * 2 ^ a) s1 = Inl e" ..
      then have "download_attempts w gws c f out tmo mr rd (a # as) s = (Inl e, s1)"
        using tg None True by simp
      with 1 None show ?thesis
        by (intro exI [of _ evs1]) auto
    next
      case False
      define sl where "sl = (if int a < mr - 1 then [Sleep (rd * 2 ^ a)] else [])"
      define s2 where "s2 = s1\<lparr>trace := trace s1 @ sl\<rparr>"
      have eq: "download_attempts w gws c f out tmo mr rd (a # as) s
          = download_attempts w gws c f out tmo mr rd as s2"
        using tg None False by (auto simp add: s2_def sl_def sleep_def)
      have t2: "trace s2 = trace s @ evs1 @ sl"
        using 1(1) by (simp add: s2_def)
      have n1: "\<not> list_ex is_404 (evs1 @ sl)"
        using 1(2) None by (simp add: sl_def)
      from Cons.IH [of s2] obtain evs2 where
        2: "trace (snd (download_attempts w gws c f out tmo mr rd as s2)) = trace s2 @ evs2"
        "(fst (download_attempts w gws c f out tmo mr rd as s2) = Inr (False, 404)
              \<and> evs2 \<noteq> [] \<and> is_404 (last evs2) \<and> \<not> list_ex is_404 (butlast evs2))
           \<or> (fst (download_attempts w gws c f out tmo mr rd as s2) \<noteq> Inr (False, 404)
               \<and> \<not> list_ex is_404 evs2)"
        by blast
      let ?evs = "(evs1 @ sl) @ evs2"
      have "trace (snd (download_attempts w gws c f out tmo mr rd (a # as) s)) = trace s @ ?evs"
        using 2(1) t2 by (simp only: eq append_assoc)
      moreover have "(fst (download_attempts w gws c f out tmo mr rd (a # as) s) = Inr (False, 404)
              \<and> ?evs \<noteq> [] \<and> is_404 (last ?evs) \<and> \<not> list_ex is_404 (butlast ?evs))
           \<or> (fst (download_attempts w gws c f out tmo mr rd (a # as) s) \<noteq> Inr (False, 404)
               \<and> \<not> list_ex is_404 ?evs)"
        using 2(2) n1
        by (auto simp only: eq last_appendR butlast_append list_ex_append split: if_splits)
      ultimately show ?thesis by blast
    qed
  qed
qed

lemma download_png_404_last:
  "\<not> list_ex is_404 (butlast (events_since s (snd (download_png w gws c n out tmo mr rd s))))
   \<and> (fst (download_png w gws c n out tmo mr rd s) = Inr (False, 404))
       = (events_since s (snd (download_png w gws c n out tmo mr rd s)) \<noteq> []
          \<and> is_404 (last (events_since s (snd (download_png w gws c n out tmo mr rd s)))))"
proof -
  let ?res = "download_attempts w gws c (filename n ''png'') out tmo mr rd [0 ..< nat mr] s"
  from download_attempts_events [of w gws c "filename n ''png''" out tmo mr rd "[0 ..< nat mr]" s]
  obtain evs where 1: "trace (snd ?res) = trace s @ evs"
    "(fst ?res = Inr (False, 404) \<and> evs \<noteq> [] \<and> is_404 (last evs)
        \<and> \<not> list_ex is_404 (butlast evs))
       \<or> (fst ?res \<noteq> Inr (False, 404) \<and> \<not> list_ex is_404 evs)"
    by blast
  have ev: "events_since s (snd ?res) = evs"
    using 1(1) by (simp add: events_since_def)
  from 1(2) show ?thesis
  proof
    assume "fst ?res = Inr (False, 404) \<and> evs \<noteq> [] \<and> is_404 (last evs)
        \<and> \<not> list_ex is_404 (butlast evs)"
    then show ?thesis
      by (simp add: download_png_def ev)
  next
    assume a: "fst ?res \<noteq> Inr (False, 404) \<and> \<not> list_ex is_404 evs"
    then have "\<not> list_ex is_404 (butlast evs)"
      by (simp add: list_ex_butlast)
    moreover have "evs \<noteq> [] \<longrightarrow> \<not> is_404 (last evs)"
      using a by (auto simp add: list_ex_iff)
    ultimately show ?thesis
      using a by (auto simp add: download_png_def ev)
  qed
qed

text \<open>When every gateway keeps failing in the transient way.\<close>

lemma try_gateways_transient:
  assumes "\<forall>t. \<forall>g \<in> set gs. transient (w t (get_request (ipfs_url g c f) tmo))"
  shows "fst (try_gateways w gs c f out tmo s) = None
    \<and> requests_of (trace (snd (try_gateways w gs c f out tmo s)))
        = requests_of (trace s) @ map (\<lambda>g. get_request (ipfs_url g c f) tmo) gs
    \<and> sleeps_of (trace (snd (try_gateways w gs c f out tmo s))) = sleeps_of (trace s)"
  using assms
proof (induction gs arbitrary: s)
  case Nil
  then show ?case by simp
next
  case (Cons g gs)
  let ?r = "get_request (ipfs_url g c f) tmo"
  let ?s1 = "s\<lparr>clock := Suc (clock s), trace := trace s @ [Http ?r (w (clock s) ?r)]\<rparr>"
  have "transient (w (clock s) ?r)"
    using Cons.prems by simp
  then have eq: "try_gateways w (g # gs) c f out tmo s = try_gateways w gs c f out tmo ?s1"
    by (cases "w (clock s) ?r") (simp_all add: session_request_def adapter_def)
  have "\<forall>t. \<forall>g \<in> set gs. transient (w t (get_request (ipfs_url g c f) tmo))"
    using Cons.prems by simp
  from Cons.IH [OF this, of ?s1] show ?case
    by (simp add: eq del: try_gateways.simps)
qed

lemma download_attempts_transient:
  assumes "\<forall>t. \<forall>g \<in> set gws. transient (w t (get_request (ipfs_url g c f) tmo))"
    and "\<forall>a \<in> set as. int a < mr - 1 \<longrightarrow> 0 \<le> rd * 2 ^ a \<and> rd * 2 ^ a \<le> sleep_max"
  shows "fst (download_attempts w gws c f out tmo mr rd as s) = Inr (False, 504)
    \<and> requests_of (trace (snd (download_attempts w gws c f out tmo mr rd as s)))
        = requests_of (trace s)
          @ concat (map (\<lambda>a. map (\<lambda>g. get_request (ipfs_url g c f) tmo) gws) as)
    \<and> sleeps_of (trace (snd (download_attempts w gws c f out tmo mr rd as s)))
        = sleeps_of (trace s) @ map (\<lambda>a. rd * 2 ^ a) (filter (\<lambda>a. int a < mr - 1) as)"
  using assms(2)
proof (induction as arbitrary: s)
  case Nil
  then show ?case by simp
next
  case (Cons a as)
  obtain s1 where tg: "try_gateways w gws c f out tmo s = (None, s1)"
    "requests_of (trace s1)
       = requests_of (trace s) @ map (\<lambda>g. get_request (ipfs_url g c f) tmo) gws"
    "sleeps_of (trace s1) = sleeps_of (trace s)"
    using try_gateways_transient [OF assms(1), of out s]
    by (cases "try_gateways w gws c f out tmo s") simp
  define s2 where
    "s2 = (if int a < mr - 1 then s1\<lparr>trace := trace s1 @ [Sleep (rd * 2 ^ a)]\<rparr> else s1)"
  have ok: "int a < mr - 1 \<longrightarrow> 0 \<le> rd * 2 ^ a \<and> rd * 2 ^ a \<le> sleep_max"
    using Cons.prems by simp
  have eq: "download_attempts w gws c f out tmo mr rd (a # as) s
      = download_attempts w gws c f out tmo mr rd as s2"
    using tg(1) ok by (auto simp add: s2_def sleep_def)
  have "requests_of (trace s2)
       = requests_of (trace s) @ map (\<lambda>g. get_request (ipfs_url g c f) tmo) gws"
    "sleeps_of (trace s2)
       = sleeps_of (trace s) @ (if int a < mr - 1 then [rd * 2 ^ a] else [])"
    using tg(2,3) by (simp_all add: s2_def)
  moreover have "\<forall>a \<in> set as. int a < mr - 1 \<longrightarrow> 0 \<le> rd * 2 ^ a \<and> rd * 2 ^ a \<le> sleep_max"
    using Cons.prems by simp
  ultimately show ?case
    using Cons.IH [of s2] by (simp add: eq del: download_attempts.simps)
qed

lemma filter_attempts: "filter (\<lambda>a. int a < mr - 1) [0 ..< nat mr] = [0 ..< nat mr - 1]"
proof -
  have "[0 ..< nat mr] = [0 ..< nat mr - 1] @ [nat mr - 1 ..< nat mr]"
    using upt_add_eq_append [of 0 "nat mr - 1" "nat mr - (nat mr - 1)"] by simp
  moreover have "filter (\<lambda>a. int a < mr - 1) [0 ..< nat mr - 1] = [0 ..< nat mr - 1]"
    by (rule filter_True) auto
  moreover have "filter (\<lambda>a. int a < mr - 1) [nat mr - 1 ..< nat mr] = []"
    by (rule filter_False) auto
  ultimately show ?thesis
    by (metis append_Nil2 filter_append)
qed

lemma download_png_transient:
  assumes "\<forall>t. \<forall>g \<in> set gws.
      transient (w t (get_request (ipfs_url g c (filename n ''png'')) tmo))"
    and "pauses_accepted mr rd"
  shows "fst (download_png w gws c n out tmo mr rd s) = Inr (False, 504)
    \<and> requests_of (trace (snd (download_png w gws c n out tmo mr rd s)))
        = requests_of (trace s)
          @ concat (replicate (nat mr)
              (map (\<lambda>g. get_request (ipfs_url g c (filename n ''png'')) tmo) gws))
    \<and> sleeps_of (trace (snd (download_png w gws c n out tmo mr rd s)))
        = sleeps_of (trace s) @ map (\<lambda>a. rd * 2 ^ a) [0 ..< nat mr - 1]"
proof -
  have "\<forall>a \<in> set [0 ..< nat mr]. int a < mr - 1 \<longrightarrow> 0 \<le> rd * 2 ^ a \<and> rd * 2 ^ a \<le> sleep_max"
  proof (intro ballI impI)
    fix a
    assume "int a < mr - 1"
    then have "a \<in> set [0 ..< nat mr - 1]"
      by auto
    with assms(2) show "0 \<le> rd * 2 ^ a \<and> rd * 2 ^ a \<le> sleep_max"
      unfolding pauses_accepted_def list_all_iff by blast
  qed
  from download_attempts_transient [OF assms(1) this, of out s] show ?thesis
    by (simp add: download_png_def filter_attempts map_replicate_const)
qed

text \<open>A pause that \<^verbatim>\<open>time.sleep\<close> refuses ends the download after the first round.\<close>

lemma download_png_refused_pause:
  assumes "\<forall>t. \<forall>g \<in> set gws.
      transient (w t (get_request (ipfs_url g c (filename n ''png'')) tmo))"
    and "2 \<le> mr" and "rd < 0"
  shows "fst (download_png w gws c n out tmo mr rd s)
       = Inl (ValueError ''sleep length must be non-negative'')
    \<and> requests_of (trace (snd (download_png w gws c n out tmo mr rd s)))
        = requests_of (trace s)
          @ map (\<lambda>g. get_request (ipfs_url g c (filename n ''png'')) tmo) gws
    \<and> sleeps_of (trace (snd (download_png w gws c n out tmo mr rd s))) = sleeps_of (trace s)"
proof -
  let ?f = "filename n ''png''"
  obtain s1 where tg: "try_gateways w gws c ?f out tmo s = (None, s1)"
    "requests_of (trace s1)
       = requests_of (trace s) @ map (\<lambda>g. get_request (ipfs_url g c ?f) tmo) gws"
    "sleeps_of (trace s1) = sleeps_of (trace s)"
    using try_gateways_transient [OF assms(1), of out s]
    by (cases "try_gateways w gws c ?f out tmo s") simp
  have "[0 ..< nat mr] = 0 # [1 ..< nat mr]"
    using assms(2) by (simp add: upt_rec)
  then have "download_png w gws c n out tmo mr rd s
      = (Inl (ValueError ''sleep length must be non-negative''), s1)"
    using tg(1) assms(2,3) by (simp add: download_png_def sleep_def)
  with tg(2,3) show ?thesis
    by simp
qed

text \<open>
  C5 (as amended).  In \<^verbatim>\<open>download_png\<close> a 404 answer ends the download at once: among the
  events that one call adds to the trace, a 404 exchange can only be the last one, and
  the call returns the miss \<open>(False, 404)\<close> exactly when its last event is a 404
  exchange.  When every gateway keeps failing with an exception or with a status that is
  neither 200 nor 404, and every back-off pause \<open>retry_delay * 2 ^ attempt\<close> is a length
  that \<^verbatim>\<open>time.sleep\<close> accepts, the call asks every gateway in each of \<open>max_retries\<close>
  rounds, sleeps \<open>retry_delay * 2 ^ attempt\<close> seconds after every round but the last, and
  returns the miss \<open>(False, 504)\<close>.  With a negative \<open>retry_delay\<close> and at least two
  rounds the first pause raises \<^verbatim>\<open>ValueError\<close> after one round, and no miss is reported.
  Example: 503 from the first gateway, a timeout from the second and 404 from the third
  give \<open>(False, 404)\<close> after three requests and no sleep.
\<close>

theorem download_png_retry_policy:
  "\<not> list_ex is_404 (butlast (events_since s (snd (download_png w gws c n out tmo mr rd s))))
   \<and> (fst (download_png w gws c n out tmo mr rd s) = Inr (False, 404))
       = (events_since s (snd (download_png w gws c n out tmo mr rd s)) \<noteq> []
          \<and> is_404 (last (events_since s (snd (download_png w gws c n out tmo mr rd s)))))
   \<and> ((\<forall>t. \<forall>g \<in> set gws.
          transient (w t (get_request (ipfs_url g c (filename n ''png'')) tmo)))
       \<longrightarrow> (pauses_accepted mr rd
             \<longrightarrow> fst (download_png w gws c n out tmo mr rd s) = Inr (False, 504)
               \<and> requests_of (trace (snd (download_png w gws c n out tmo mr rd s)))
                   = requests_of (trace s)
                     @ concat (replicate (nat mr)
                         (map (\<lambda>g. get_request (ipfs_url g c (filename n ''png'')) tmo) gws))
               \<and> sleeps_of (trace (snd (download_png w gws c n out tmo mr rd s)))
                   = sleeps_of (trace s) @ map (\<lambda>a. rd * 2 ^ a) [0 ..< nat mr - 1])
           \<and> (2 \<le> mr \<and> rd < 0
             \<longrightarrow> fst (download_png w gws c n out tmo mr rd s)
                   = Inl (ValueError ''sleep length must be non-negative'')
               \<and> requests_of (trace (snd (download_png w gws c n out tmo mr rd s)))
                   = requests_of (trace s)
                     @ map (\<lambda>g. get_request (ipfs_url g c (filename n ''png'')) tmo) gws))
   \<and> fst (download_png flaky_then_404 (gateways hogs_defaults) (cid hogs_defaults) 2951
            ''/tmp/ipfs_dl_0/2951.png'' 180 3 5 io0) = Inr (False, 404)
   \<and> length (requests_of (trace (snd (download_png flaky_then_404 (gateways hogs_defaults)
            (cid hogs_defaults) 2951 ''/tmp/ipfs_dl_0/2951.png'' 180 3 5 io0)))) = 3
   \<and> sleeps_of (trace (snd (download_png flaky_then_404 (gateways hogs_defaults)
            (cid hogs_defaults) 2951 ''/tmp/ipfs_dl_0/2951.png'' 180 3 5 io0))) = []"
proof -
  have "fst (download_png flaky_then_404 (gateways hogs_defaults) (cid hogs_defaults) 2951
            ''/tmp/ipfs_dl_0/2951.png'' 180 3 5 io0) = Inr (False, 404)"
    by code_simp
  moreover have "length (requests_of (trace (snd (download_png flaky_then_404
            (gateways hogs_defaults) (cid hogs_defaults) 2951
            ''/tmp/ipfs_dl_0/2951.png'' 180 3 5 io0)))) = 3"
    by code_simp
  moreover have "sleeps_of (trace (snd (download_png flaky_then_404 (gateways hogs_defaults)
            (cid hogs_defaults) 2951 ''/tmp/ipfs_dl_0/2951.png'' 180 3 5 io0))) = []"
    by code_simp
  ultimately show ?thesis
    using download_png_404_last [of s w gws c n out tmo mr rd]
      download_png_transient [of gws w c n tmo mr rd out s]
      download_png_refused_pause [of gws w c n tmo mr rd out s]
    by blast
qed

text \<open>
  The theorem at the defaults of the script (three gateways, three rounds, base delay
  5) with a source that always times out: nine requests, sleeps of 5 and 10 seconds,
  and the miss with status 504; and with the base delay -1: three requests, no sleep and
  \<^verbatim>\<open>ValueError\<close>.
\<close>

theorem download_png_retry_policy_witness:
  "transient (timeout_world 0 (get_request
       (ipfs_url ''https://ipfs.io'' (cid hogs_defaults) (filename 2951 ''png'')) 180))
   \<and> pauses_accepted 3 5
   \<and> fst (download_png timeout_world (gateways hogs_defaults) (cid hogs_defaults) 2951
            ''/tmp/ipfs_dl_0/2951.png'' 180 3 5 io0) = Inr (False, 504)
   \<and> length (requests_of (trace (snd (download_png timeout_world (gateways hogs_defaults)
            (cid hogs_defaults) 2951 ''/tmp/ipfs_dl_0/2951.png'' 180 3 5 io0)))) = 9
   \<and> sleeps_of (trace (snd (download_png timeout_world (gateways hogs_defaults)
            (cid hogs_defaults) 2951 ''/tmp/ipfs_dl_0/2951.png'' 180 3 5 io0))) = [5, 10]
   \<and> (2::int) \<le> 3 \<and> (- 1::int) < 0
   \<and> fst (download_png timeout_world (gateways hogs_defaults) (cid hogs_defaults) 2951
            ''/tmp/ipfs_dl_0/2951.png'' 180 3 (- 1) io0)
       = Inl (ValueError ''sleep length must be non-negative'')
   \<and> length (requests_of (trace (snd (download_png timeout_world (gateways hogs_defaults)
            (cid hogs_defaults) 2951 ''/tmp/ipfs_dl_0/2951.png'' 180 3 (- 1) io0)))) = 3"
proof -
  have h: "\<forall>t. \<forall>g \<in> set (gateways hogs_defaults).
      transient (timeout_world t (get_request
        (ipfs_url g (cid hogs_defaults) (filename 2951 ''png'')) 180))"
    by (simp add: timeout_world_def)
  have l: "length (gateways hogs_defaults) = 3"
    by (simp add: hogs_defaults_def)
  have u: "map (\<lambda>a. (5::int) * 2 ^ a) [0 ..< 2] = [5, 10]"
    by code_simp
  have p: "pauses_accepted 3 5"
    by code_simp
  from download_png_retry_policy [where w = timeout_world and gws = "gateways hogs_defaults"
      and c = "cid hogs_defaults" and n = 2951 and tmo = 180 and mr = 3 and rd = 5
      and s = io0 and out = "''/tmp/ipfs_dl_0/2951.png''"] h p
  have "fst (download_png timeout_world (gateways hogs_defaults) (cid hogs_defaults) 2951
            ''/tmp/ipfs_dl_0/2951.png'' 180 3 5 io0) = Inr (False, 504)"
    "requests_of (trace (snd (download_png timeout_world (gateways hogs_defaults)
            (cid hogs_defaults) 2951 ''/tmp/ipfs_dl_0/2951.png'' 180 3 5 io0)))
       = requests_of (trace io0)
         @ concat (replicate (nat 3)
             (map (\<lambda>g. get_request (ipfs_url g (cid hogs_defaults) (filename 2951 ''png'')) 180)
                (gateways hogs_defaults)))"
    "sleeps_of (trace (snd (download_png timeout_world (gateways hogs_defaults)
            (cid hogs_defaults) 2951 ''/tmp/ipfs_dl_0/2951.png'' 180 3 5 io0)))
       = sleeps_of (trace io0) @ map (\<lambda>a. 5 * 2 ^ a) [0 ..< nat 3 - 1]"
    by blast+
  then have a: "fst (download_png timeout_world (gateways hogs_defaults) (cid hogs_defaults) 2951
            ''/tmp/ipfs_dl_0/2951.png'' 180 3 5 io0) = Inr (False, 504)
   \<and> length (requests_of (trace (snd (download_png timeout_world (gateways hogs_defaults)
            (cid hogs_defaults) 2951 ''/tmp/ipfs_dl_0/2951.png'' 180 3 5 io0)))) = 9
   \<and> sleeps_of (trace (snd (download_png timeout_world (gateways hogs_defaults)
            (cid hogs_defaults) 2951 ''/tmp/ipfs_dl_0/2951.png'' 180 3 5 io0))) = [5, 10]"
    by (simp add: l u io0_def length_concat sum_list_replicate)
  from download_png_retry_policy [where w = timeout_world and gws = "gateways hogs_defaults"
      and c = "cid hogs_defaults" and n = 2951 and tmo = 180 and mr = 3 and rd = "- 1"
      and s = io0 and out = "''/tmp/ipfs_dl_0/2951.png''"] h
  have "fst (download_png timeout_world (gateways hogs_defaults) (cid hogs_defaults) 2951
            ''/tmp/ipfs_dl_0/2951.png'' 180 3 (- 1) io0)
       = Inl (ValueError ''sleep length must be non-negative'')"
    "requests_of (trace (snd (download_png timeout_world (gateways hogs_defaults)
            (cid hogs_defaults) 2951 ''/tmp/ipfs_dl_0/2951.png'' 180 3 (- 1) io0)))
       = requests_of (trace io0)
         @ map (\<lambda>g. get_request (ipfs_url g (cid hogs_defaults) (filename 2951 ''png'')) 180)
             (gateways hogs_defaults)"
    by simp_all
  then have b: "fst (download_png timeout_world (gateways hogs_defaults) (cid hogs_defaults) 2951
            ''/tmp/ipfs_dl_0/2951.png'' 180 3 (- 1) io0)
       = Inl (ValueError ''sleep length must be non-negative'')
   \<and> length (requests_of (trace (snd (download_png timeout_world (gateways hogs_defaults)
            (cid hogs_defaults) 2951 ''/tmp/ipfs_dl_0/2951.png'' 180 3 (- 1) io0)))) = 3"
    by (simp add: l io0_def)
  from a b p show ?thesis
    by (simp add: timeout_world_def)
qed

text \<open>
  The claim as first stated promises the miss with status 504 for every retry delay.
  With the delay -1, two rounds and a source that always times out, the download asks
  the gateway once, the first pause \<^verbatim>\<open>time.sleep(-1)\<close> raises \<^verbatim>\<open>ValueError\<close>, the second
  round is never made and no miss is reported; the exception leaves \<^verbatim>\<open>main\<close>.
\<close>

theorem download_png_retry_policy_counterexample:
  "transient (timeout_world 0 (get_request (ipfs_url ''https://ipfs.io'' ''cid'' (filename 1 ''png'')) 180))
   \<and> fst (download_png timeout_world [''https://ipfs.io''] ''cid'' 1 ''/tmp/ipfs_dl_0/1.png''
            180 2 (- 1) io0) \<noteq> Inr (False, 504)
   \<and> fst (download_png timeout_world [''https://ipfs.io''] ''cid'' 1 ''/tmp/ipfs_dl_0/1.png''
            180 2 (- 1) io0) = Inl (ValueError ''sleep length must be non-negative'')
   \<and> length (requests_of (trace (snd (download_png timeout_world [''https://ipfs.io''] ''cid'' 1
            ''/tmp/ipfs_dl_0/1.png'' 180 2 (- 1) io0)))) = 1
   \<and> (case main_hogs timeout_world
             (hogs_defaults\<lparr>end_number := 2951, max_retries := 2, retry_delay := - 1,
                skip_cdn_check := True\<rparr>) sample_tempdir of
         Uncaught e st \<Rightarrow> e = ValueError ''sleep length must be non-negative''
           \<and> consecutive_missing st = 0
       | _ \<Rightarrow> False)"
  by code_simp

section \<open>The tabular transform\<close>

lemma edition_of_name:
  assumes "row_get r ''Name'' [] = Str name"
  shows "edition_of_row r = Some
     (if CHR ''#'' \<in> set name
      then (case py_int (py_strip (after_last_hash name)) of
              Some i \<Rightarrow> EdInt i
            | None \<Rightarrow> EdStr (py_strip (after_last_hash name)))
      else EdStr ''unknown'')"
  using assms by (simp add: edition_of_row_def create_metadata_json_def Let_def)

lemma edition_str_of_name:
  assumes "row_get r ''Name'' [] = Str name" and "create_metadata_json r = Inr md"
  shows "edition_str_of r (md_edition md) = Inr (name_id name)"
proof -
  have ed: "md_edition md =
     (if CHR ''#'' \<in> set name
      then (case py_int (py_strip (after_last_hash name)) of
              Some i \<Rightarrow> EdInt i
            | None \<Rightarrow> EdStr (py_strip (after_last_hash name)))
      else EdStr ''unknown'')"
    using assms edition_of_name [OF assms(1)] by (simp add: edition_of_row_def)
  show ?thesis
    using assms(1)
    by (auto simp add: ed edition_str_of_def name_id_def split: option.splits)
qed

lemma process_nft_row_text_name:
  assumes "row_get r ''Name'' [] = Str name"
  shows "trace (snd (process_nft_row w r sz ak rh dp s))
      = trace s @ [Http (put_json_request sz ak rh (dp @ name_id name @ ''.json''))
                     (w (clock s) (put_json_request sz ak rh (dp @ name_id name @ ''.json'')))]
    \<and> fst (fst (process_nft_row w r sz ak rh dp s))
      = (case w (clock s) (put_json_request sz ak rh (dp @ name_id name @ ''.json'')) of
           Response code body err \<Rightarrow> code = 200 \<or> code = 201
         | Raised e \<Rightarrow> False)
    \<and> (fst (fst (process_nft_row w r sz ak rh dp s))
         \<longrightarrow> fst (snd (fst (process_nft_row w r sz ak rh dp s))) = Str (name_id name))"
proof -
  obtain md where md: "create_metadata_json r = Inr md"
    using assms by (simp add: create_metadata_json_def Let_def)
  have es: "edition_str_of r (md_edition md) = Inr (name_id name)"
    by (rule edition_str_of_name [OF assms md])
  show ?thesis
    by (cases "w (clock s) (put_json_request sz ak rh (dp @ name_id name @ ''.json''))")
      (simp_all add: process_nft_row_def md es Let_def bunny_put_json_def session_request_def
        adapter_def status_forcelist_def)
qed

text \<open>
  C6 (as amended).  For every row whose \<^verbatim>\<open>Name\<close> is text (or that has no \<^verbatim>\<open>Name\<close> column)
  the edition is taken from what follows the last \<^verbatim>\<open>#\<close> of the name, with surrounding
  white space removed: the integer it denotes when it reads as one, the trimmed text
  otherwise, and the marker \<^verbatim>\<open>unknown\<close> when the name has no \<^verbatim>\<open>#\<close>.  The row is then
  sent with one PUT to \<^verbatim>\<open>{prefix}{id}.json\<close>, also for the id \<^verbatim>\<open>unknown\<close>, and it
  counts as a success exactly when that PUT is answered 200 or 201.  The name
  \<^verbatim>\<open>HOG #3642\<close> gives the edition 3642 and the id \<^verbatim>\<open>3642\<close>, also when a no-break space
  follows it; the name \<^verbatim>\<open>HOG\<close> is uploaded to \<^verbatim>\<open>hog_jsons/unknown.json\<close>.
\<close>

theorem csv_edition_from_name:
  "(row_get r ''Name'' [] = Str name \<longrightarrow>
      edition_of_row r = Some
        (if CHR ''#'' \<in> set name
         then (case py_int (py_strip (after_last_hash name)) of
                 Some i \<Rightarrow> EdInt i
               | None \<Rightarrow> EdStr (py_strip (after_last_hash name)))
         else EdStr ''unknown'')
      \<and> trace (snd (process_nft_row w r sz ak rh dp s))
          = trace s @ [Http (put_json_request sz ak rh (dp @ name_id name @ ''.json''))
                         (w (clock s) (put_json_request sz ak rh (dp @ name_id name @ ''.json'')))]
      \<and> fst (fst (process_nft_row w r sz ak rh dp s))
          = (case w (clock s) (put_json_request sz ak rh (dp @ name_id name @ ''.json'')) of
               Response code body err \<Rightarrow> code = 200 \<or> code = 201
             | Raised e \<Rightarrow> False))
   \<and> edition_of_row (sample_row ''HOG #3642'') = Some (EdInt 3642)
   \<and> name_id ''HOG #3642'' = ''3642''
   \<and> name_id ''HOG #007'' = ''7''
   \<and> name_id (''HOG #3642'' @ [CHR 0xA0]) = ''3642''
   \<and> name_id ''HOG'' = ''unknown''
   \<and> fst (process_nft_row accepting_world (sample_row ''HOG'') ''zone'' ''key'' None
             ''hog_jsons/'' io0)
       = (True, Str ''unknown'', None)
   \<and> requests_of (trace (snd (process_nft_row accepting_world (sample_row ''HOG'')
         ''zone'' ''key'' None ''hog_jsons/'' io0)))
       = [put_json_request ''zone'' ''key'' None ''hog_jsons/unknown.json'']"
proof -
  have "edition_of_row (sample_row ''HOG #3642'') = Some (EdInt 3642)"
    "name_id ''HOG #3642'' = ''3642''"
    "name_id ''HOG #007'' = ''7''"
    "name_id (''HOG #3642'' @ [CHR 0xA0]) = ''3642''"
    "name_id ''HOG'' = ''unknown''"
    "fst (process_nft_row accepting_world (sample_row ''HOG'') ''zone'' ''key'' None
             ''hog_jsons/'' io0)
       = (True, Str ''unknown'', None)"
    "requests_of (trace (snd (process_nft_row accepting_world (sample_row ''HOG'')
         ''zone'' ''key'' None ''hog_jsons/'' io0)))
       = [put_json_request ''zone'' ''key'' None ''hog_jsons/unknown.json'']"
    by code_simp+
  then show ?thesis
    using edition_of_name [of r name] process_nft_row_text_name [of r name w sz ak rh dp s]
    by blast
qed

text \<open>The theorem at the row named \<^verbatim>\<open>HOG #3642\<close> and a destination that accepts it.\<close>

theorem csv_edition_from_name_witness:
  "row_get (sample_row ''HOG #3642'') ''Name'' [] = Str ''HOG #3642''
   \<and> trace (snd (process_nft_row accepting_world (sample_row ''HOG #3642'') ''zone'' ''key'' None
         ''hog_jsons/'' io0))
       = [Http (put_json_request ''zone'' ''key'' None ''hog_jsons/3642.json'')
            (Response 201 [] None)]
   \<and> fst (fst (process_nft_row accepting_world (sample_row ''HOG #3642'') ''zone'' ''key'' None
         ''hog_jsons/'' io0))"
proof -
  have n: "row_get (sample_row ''HOG #3642'') ''Name'' [] = Str ''HOG #3642''"
    by (simp add: sample_row_def row_get_def)
  have i: "name_id ''HOG #3642'' = ''3642''"
    by code_simp
  from csv_edition_from_name [where r = "sample_row ''HOG #3642''" and name = "''HOG #3642''"
      and w = accepting_world and sz = "''zone''" and ak = "''key''" and rh = None
      and dp = "''hog_jsons/''" and s = io0] n
  show ?thesis
    by (simp add: i io0_def accepting_world_def)
qed

text \<open>
  The claim as first stated takes the text after the last \<^verbatim>\<open>#\<close> as it stands.  For the
  name \<^verbatim>\<open>HOG # x \<close> that text is \<^verbatim>\<open> x \<close>, which is no integer, but the edition is the
  trimmed \<^verbatim>\<open>x\<close> and the upload goes to \<^verbatim>\<open>hog_jsons/x.json\<close>.
\<close>

theorem csv_edition_from_name_counterexample:
  "CHR ''#'' \<in> set ''HOG # x ''
   \<and> after_last_hash ''HOG # x '' = '' x ''
   \<and> py_int (after_last_hash ''HOG # x '') = None
   \<and> edition_of_row (sample_row ''HOG # x '') = Some (EdStr ''x'')
   \<and> edition_of_row (sample_row ''HOG # x '') \<noteq> Some (EdStr (after_last_hash ''HOG # x ''))
   \<and> requests_of (trace (snd (process_nft_row accepting_world (sample_row ''HOG # x '')
         ''zone'' ''key'' None ''hog_jsons/'' io0)))
       = [put_json_request ''zone'' ''key'' None ''hog_jsons/x.json'']"
  by code_simp

section \<open>Upload failures\<close>

text \<open>
  C4.  The claim does not hold of the IPFS variants for the statuses of the retry list.
  With candidates 5 to 10, every download served, and the storage API answering 500 to
  the upload of item 5 on every attempt and 200 to the other uploads, the PUT of item 5
  leaves the session as \<^verbatim>\<open>RetryError\<close>; \<^verbatim>\<open>bunny_put\<close> has no \<^verbatim>\<open>try\<close> and \<^verbatim>\<open>main\<close> does not
  handle the exception, so the run of \<^verbatim>\<open>ipfs-to-cdn-apes-json.py\<close> ends there: one item
  found, none uploaded, no upload error counted, no request for items 6 to 10, no
  summary, and the local copy and the temp directory left behind.
  \<^verbatim>\<open>ipfs-to-cdn-hogs-json.py\<close> ends the same way after logging the exception.  The
  tabular variant catches the exception in \<^verbatim>\<open>process_nft_row\<close> and reports five successes
  and one error, and the IPFS variants themselves count a failed upload and go on when
  the status is one that the session hands back: with 403 in place of 500 the run
  reports six found, five uploaded and one upload error.
\<close>

theorem upload_500_halts_run:
  "(case main_apes_json
           (upload_status_at 500 ''https://storage.bunnycdn.com/zone/ape_jsons/5.json'')
           (apes_defaults\<lparr>start_number := 5, end_number := 10\<rparr>) sample_tempdir of
      Uncaught e st \<Rightarrow>
        e = retry_error
        \<and> (found_count st, uploaded_count st, errors_upload st) = (1, 0, 0)
        \<and> requests_of (trace (env st))
            = [get_req_json (apes_defaults\<lparr>start_number := 5, end_number := 10\<rparr>) 5,
               put_req (apes_defaults\<lparr>start_number := 5, end_number := 10\<rparr>)
                 ''ape_jsons/'' ''json'' 5]
        \<and> list_all (\<lambda>ev. case ev of Print l \<Rightarrow> False | _ \<Rightarrow> True) (trace (env st))
        \<and> files (env st) = {''/tmp/ipfs_dl_0/5.json''}
        \<and> \<not> tempdir_removed (env st)
    | _ \<Rightarrow> False)
   \<and> (case main_hogs_json
           (upload_status_at 500 ''https://storage.bunnycdn.com/zone/hog_jsons/5.json'')
           (hogs_json_defaults\<lparr>start_number := 5, end_number := 10, skip_cdn_check := True\<rparr>)
           sample_tempdir of
      Uncaught e st \<Rightarrow>
        e = retry_error
        \<and> (found_count st, uploaded_count st, errors_upload st) = (1, 0, 0)
        \<and> length (requests_of (trace (env st))) = 2
    | _ \<Rightarrow> False)
   \<and> (case main_csv (upload_status_at 500 ''https://storage.bunnycdn.com/zone/hog_jsons/5.json'')
             csv_defaults (Some six_rows) of
         Processed sm \<Rightarrow> (success_count sm, error_count sm) = (5, 1)
       | _ \<Rightarrow> False)
   \<and> (case main_apes_json
           (upload_status_at 403 ''https://storage.bunnycdn.com/zone/ape_jsons/5.json'')
           (apes_defaults\<lparr>start_number := 5, end_number := 10\<rparr>) sample_tempdir of
      Completed st \<Rightarrow>
        (found_count st, uploaded_count st, errors_upload st) = (6, 5, 1)
        \<and> Print ''Done. Found: 6, Uploaded: 5, Upload errors: 1'' \<in> set (trace (env st))
    | _ \<Rightarrow> False)"
  by code_simp

section \<open>Skipped items and the miss streak\<close>

lemma skip_pass:
  assumes "n \<in> ex"
  shows "\<exists>st1. loop_body w a ext dp td dl ex n st = Continue st1
     \<and> consecutive_missing st1 = consecutive_missing st
     \<and> skipped_count st1 = skipped_count st + 1
     \<and> found_count st1 = found_count st
     \<and> requests_of (trace (env st1)) = requests_of (trace (env st))
     \<and> files (env st1) = files (env st)"
  using assms by (simp add: body_skip emit_def)

lemma skips_and_misses:
  assumes "\<forall>n \<in> set ns. n \<in> ex
      \<or> (\<forall>s. \<exists>code s1. dl n (td @ ''/'' @ filename n ext) s = (Inr (False, code), s1))"
  shows "(consecutive_missing st + int (length (filter (\<lambda>n. n \<notin> ex) ns)) < max_missing a
      \<longrightarrow> (\<exists>st1. for_loop (loop_body w a ext dp td dl ex) ns st = Continue st1
            \<and> consecutive_missing st1
                = consecutive_missing st + int (length (filter (\<lambda>n. n \<notin> ex) ns))))
    \<and> (max_missing a \<le> consecutive_missing st + int (length (filter (\<lambda>n. n \<notin> ex) ns))
        \<and> filter (\<lambda>n. n \<notin> ex) ns \<noteq> []
      \<longrightarrow> (\<exists>st1. for_loop (loop_body w a ext dp td dl ex) ns st = Break st1))"
  using assms
proof (induction ns arbitrary: st)
  case Nil
  then show ?case by simp
next
  case (Cons n ns)
  let ?B = "loop_body w a ext dp td dl ex"
  have rest: "\<forall>n \<in> set ns. n \<in> ex
      \<or> (\<forall>s. \<exists>code s1. dl n (td @ ''/'' @ filename n ext) s = (Inr (False, code), s1))"
    using Cons.prems by simp
  show ?case
  proof (cases "n \<in> ex")
    case True
    from skip_pass [OF True, of w a ext dp td dl st]
    obtain st1 where 1: "?B n st = Continue st1"
      "consecutive_missing st1 = consecutive_missing st"
      by blast
    from Cons.IH [OF rest, of st1] 1 True show ?thesis
      by simp
  next
    case False
    with Cons.prems obtain code s1 where
      d: "dl n (td @ ''/'' @ filename n ext) (env st) = (Inr (False, code), s1)"
      by (metis list.set_intros(1))
    show ?thesis
    proof (cases "max_missing a \<le> consecutive_missing st + 1")
      case True
      then have "\<exists>st1. ?B n st = Break st1"
        by (simp add: body_miss [where dl = dl, OF False d] Let_def)
      with True False show ?thesis
        by auto
    next
      case stay: False
      then obtain st1 where 1: "?B n st = Continue st1"
        "consecutive_missing st1 = consecutive_missing st + 1"
        by (simp add: body_miss [where dl = dl, OF False d] Let_def)
      from Cons.IH [OF rest, of st1] 1 False stay show ?thesis
        by (auto split: if_splits)
    qed
  qed
qed

text \<open>
  C10.  In the two hog scripts a pass for an id that already exists on the CDN sends no
  request, adds one to \<open>skipped_count\<close> and leaves the consecutive-miss counter as it
  was; the counter is set to zero only by a successful download, whatever happens to
  the upload after it, and a miss adds one.  Hence a run of ids that are each either
  skipped or missed breaks the loop as soon as the misses among them bring the counter
  to the threshold.  Example for both scripts: ids 1 to 6 with 2 and 4 on the CDN, the
  rest absent and a threshold of 3 stop at id 5 with two skipped items.
\<close>

theorem skipped_items_keep_streak:
  "consecutive_missing (state_of (loop_body w a ext dp td dl ex n st)) =
     (if n \<in> ex then consecutive_missing st
      else case dl n (td @ ''/'' @ filename n ext) (env st) of
             (Inl e, s1) \<Rightarrow> consecutive_missing st
           | (Inr (ok, code), s1) \<Rightarrow> if ok then 0 else consecutive_missing st + 1)
   \<and> (n \<in> ex \<longrightarrow>
        (\<exists>st1. loop_body w a ext dp td dl ex n st = Continue st1
           \<and> consecutive_missing st1 = consecutive_missing st
           \<and> skipped_count st1 = skipped_count st + 1
           \<and> requests_of (trace (env st1)) = requests_of (trace (env st))))
   \<and> ((\<forall>n \<in> set ns. n \<in> ex
          \<or> (\<forall>s. \<exists>code s1. dl n (td @ ''/'' @ filename n ext) s = (Inr (False, code), s1)))
       \<and> max_missing a \<le> consecutive_missing st + int (length (filter (\<lambda>n. n \<notin> ex) ns))
       \<and> filter (\<lambda>n. n \<notin> ex) ns \<noteq> []
      \<longrightarrow> (\<exists>st1. for_loop (loop_body w a ext dp td dl ex) ns st = Break st1))
   \<and> (case main_hogs_json
          (cdn_has [''https://storage.bunnycdn.com/zone/hog_jsons/2.json'',
                    ''https://storage.bunnycdn.com/zone/hog_jsons/4.json''])
          (hogs_json_defaults\<lparr>end_number := 6, max_missing := 3\<rparr>) sample_tempdir of
        Completed st \<Rightarrow> (consecutive_missing st, skipped_count st, found_count st) = (3, 2, 0)
          \<and> halts_at (hogs_json_defaults\<lparr>end_number := 6, max_missing := 3\<rparr>) (Completed st) 5
      | _ \<Rightarrow> False)
   \<and> (case main_hogs
          (cdn_has [''https://baysed.b-cdn.net/hog_images/2.png'',
                    ''https://baysed.b-cdn.net/hog_images/4.png''])
          (hogs_defaults\<lparr>start_number := 1, end_number := 6, max_missing := 3\<rparr>)
          sample_tempdir of
        Completed st \<Rightarrow> (consecutive_missing st, skipped_count st, found_count st) = (3, 2, 0)
          \<and> Print ''Stopping at n=5: reached 3 consecutive misses.'' \<in> set (trace (env st))
      | _ \<Rightarrow> False)"
proof -
  have "case main_hogs_json
          (cdn_has [''https://storage.bunnycdn.com/zone/hog_jsons/2.json'',
                    ''https://storage.bunnycdn.com/zone/hog_jsons/4.json''])
          (hogs_json_defaults\<lparr>end_number := 6, max_missing := 3\<rparr>) sample_tempdir of
        Completed st \<Rightarrow> (consecutive_missing st, skipped_count st, found_count st) = (3, 2, 0)
          \<and> halts_at (hogs_json_defaults\<lparr>end_number := 6, max_missing := 3\<rparr>) (Completed st) 5
      | _ \<Rightarrow> False"
    by code_simp
  moreover have "case main_hogs
          (cdn_has [''https://baysed.b-cdn.net/hog_images/2.png'',
                    ''https://baysed.b-cdn.net/hog_images/4.png''])
          (hogs_defaults\<lparr>start_number := 1, end_number := 6, max_missing := 3\<rparr>)
          sample_tempdir of
        Completed st \<Rightarrow> (consecutive_missing st, skipped_count st, found_count st) = (3, 2, 0)
          \<and> Print ''Stopping at n=5: reached 3 consecutive misses.'' \<in> set (trace (env st))
      | _ \<Rightarrow> False"
    by code_simp
  moreover have "n \<in> ex \<longrightarrow>
        (\<exists>st1. loop_body w a ext dp td dl ex n st = Continue st1
           \<and> consecutive_missing st1 = consecutive_missing st
           \<and> skipped_count st1 = skipped_count st + 1
           \<and> requests_of (trace (env st1)) = requests_of (trace (env st)))"
    using skip_pass [of n ex w a ext dp td dl st] by blast
  moreover have "(\<forall>n \<in> set ns. n \<in> ex
          \<or> (\<forall>s. \<exists>code s1. dl n (td @ ''/'' @ filename n ext) s = (Inr (False, code), s1)))
       \<and> max_missing a \<le> consecutive_missing st + int (length (filter (\<lambda>n. n \<notin> ex) ns))
       \<and> filter (\<lambda>n. n \<notin> ex) ns \<noteq> []
      \<longrightarrow> (\<exists>st1. for_loop (loop_body w a ext dp td dl ex) ns st = Break st1)"
    using skips_and_misses [of ns ex dl td ext st a w dp] by blast
  ultimately show ?thesis
    using counter_after_pass [of w a ext dp td dl ex n st] by blast
qed

text \<open>
  The theorem at the ids 1, 2, 3 with 2 on the CDN, an empty source and a threshold
  of 2: id 2 is skipped and the loop breaks at id 3.
\<close>

theorem skipped_items_keep_streak_witness:
  "(2::int) \<in> {2}
   \<and> (\<exists>st1. loop_body absent_world (hogs_json_defaults\<lparr>max_missing := 2\<rparr>) ''json''
             ''hog_jsons/'' sample_tempdir
             (download_call_json absent_world (hogs_json_defaults\<lparr>max_missing := 2\<rparr>)) {2}
             2 (state0 io0) = Continue st1
        \<and> consecutive_missing st1 = 0 \<and> skipped_count st1 = 1)
   \<and> (\<exists>st1. for_loop (loop_body absent_world (hogs_json_defaults\<lparr>max_missing := 2\<rparr>) ''json''
             ''hog_jsons/'' sample_tempdir
             (download_call_json absent_world (hogs_json_defaults\<lparr>max_missing := 2\<rparr>)) {2})
          [1, 2, 3] (state0 io0) = Break st1)"
proof -
  let ?a = "hogs_json_defaults\<lparr>max_missing := 2\<rparr>"
  let ?dl = "download_call_json absent_world ?a"
  have m: "\<forall>n \<in> set [1, 2, 3]. n \<in> {2}
      \<or> (\<forall>s. \<exists>code s1. ?dl n (sample_tempdir @ ''/'' @ filename n ''json'') s
                           = (Inr (False, code), s1))"
    by (simp add: download_call_json_def download_json_def session_request_def absent_world_def
        adapter_def status_forcelist_def)
  have c: "max_missing ?a
      \<le> consecutive_missing (state0 io0)
          + int (length (filter (\<lambda>n. n \<notin> {2}) [1, 2, 3::int]))"
    "filter (\<lambda>n. n \<notin> {2}) [1, 2, 3::int] \<noteq> []"
    by (simp_all add: hogs_json_defaults_def state0_def)
  note inst = skipped_items_keep_streak [where w = absent_world and a = ?a and ext = "''json''"
      and dp = "''hog_jsons/''" and td = sample_tempdir and dl = ?dl and ex = "{2}" and n = 2
      and st = "state0 io0" and ns = "[1, 2, 3]"]
  have "\<exists>st1. loop_body absent_world ?a ''json'' ''hog_jsons/'' sample_tempdir ?dl {2} 2
          (state0 io0) = Continue st1
      \<and> consecutive_missing st1 = consecutive_missing (state0 io0)
      \<and> skipped_count st1 = skipped_count (state0 io0) + 1"
    using inst by blast
  moreover have "\<exists>st1. for_loop (loop_body absent_world ?a ''json'' ''hog_jsons/''
      sample_tempdir ?dl {2}) [1, 2, 3] (state0 io0) = Break st1"
    using inst m c by blast
  ultimately show ?thesis
    by (simp add: state0_def)
qed

section \<open>Destination keys\<close>

text \<open>
  C3.  For every prefix \<open>p\<close>, id \<open>n\<close> and extension \<open>e\<close> the destination key is the plain
  concatenation of \<open>p\<close>, the decimal rendering of \<open>n\<close>, a dot and \<open>e\<close>; reading the numeric
  part back out of the key gives \<open>n\<close> again; prefix \<^verbatim>\<open>hog_jsons/\<close>, id 3642 and extension
  \<^verbatim>\<open>json\<close> give \<^verbatim>\<open>hog_jsons/3642.json\<close>, and a one-digit id is not padded.
\<close>

theorem dest_key_roundtrip:
  "dest_key p (filename n e) = p @ str_int n @ ''.'' @ e
   \<and> spec_parse_key p e (dest_key p (filename n e)) = Some n
   \<and> dest_key ''hog_jsons/'' (filename 3642 ''json'') = ''hog_jsons/3642.json''
   \<and> dest_key ''ape_jsons/'' (filename 7 ''json'') = ''ape_jsons/7.json''"
proof -
  have "str_int 3642 = ''3642''" and "str_int 7 = ''7''"
    by code_simp+
  then show ?thesis
    by (simp add: spec_parse_key_dest_key) (simp add: dest_key_def filename_def)
qed

end
